theory Spec2Isabelle
  imports Main
begin

section \<open>Schema values\<close>

text \<open>
  The generator inspects zod schemas only through \<open>_def.typeName\<close>, the wrappers'
  unwrap accessors, an object's \<open>shape\<close>, \<open>omit\<close> and \<open>isOptional()\<close>.
  \<open>ZodFirstPartyTypeKind\<close> is the value of \<open>_def.typeName\<close>; \<open>ZodOther n\<close> stands
  for every first-party kind the generator never names, \<open>n\<close> being its name
  (\<open>ZodNumber\<close>, \<open>ZodUnion\<close>, ...).
\<close>

datatype ZodFirstPartyTypeKind =
    ZodObject | ZodString | ZodOptional | ZodNullable | ZodDefault | ZodEffects
  | ZodLiteral | ZodArray | ZodOther string

text \<open>
  A value of type \<open>unknown\<close> handed to the generator: a schema, or \<open>NotZodType\<close>, a
  JavaScript value that is not null and has no \<open>_def.typeName\<close> (a function, a plain
  object). An object schema carries its shape as the list of its own enumerable
  properties, in property order; a read of a key takes the first entry with that key.
\<close>

datatype zod =
    ZObject "(string \<times> zod) list"
  | ZString
  | ZOptional zod
  | ZNullable zod
  | ZDefault zod
  | ZEffects zod
  | ZLiteral bool
  | ZArray zod
  | ZOther string
  | NotZodType

fun typeName :: "zod \<Rightarrow> ZodFirstPartyTypeKind option" where
  "typeName (ZObject _) = Some ZodObject"
| "typeName ZString = Some ZodString"
| "typeName (ZOptional _) = Some ZodOptional"
| "typeName (ZNullable _) = Some ZodNullable"
| "typeName (ZDefault _) = Some ZodDefault"
| "typeName (ZEffects _) = Some ZodEffects"
| "typeName (ZLiteral _) = Some ZodLiteral"
| "typeName (ZArray _) = Some ZodArray"
| "typeName (ZOther n) = Some (ZodOther n)"
| "typeName NotZodType = None"

definition zodInstanceofZodType :: "zod \<Rightarrow> bool" where
  "zodInstanceofZodType schema = (typeName schema \<noteq> None)"

definition zodInstanceof :: "zod \<Rightarrow> ZodFirstPartyTypeKind \<Rightarrow> bool" where
  "zodInstanceof schema zodTypeKind = (typeName schema = Some zodTypeKind)"

text \<open>
  \<open>getBaseZodType\<close>: one recursive case for each of \<open>ZodOptional\<close> (\<open>unwrap()\<close>),
  \<open>ZodDefault\<close> (\<open>removeDefault()\<close>) and \<open>ZodEffects\<close> (\<open>innerType()\<close>); the
  \<open>ZodNullable\<close> test is commented out in the source, so a nullable wrapper falls
  through to the final \<open>return schema\<close>.
\<close>

fun getBaseZodType :: "zod \<Rightarrow> zod" where
  "getBaseZodType (ZOptional inner) = getBaseZodType inner"
| "getBaseZodType (ZDefault inner) = getBaseZodType inner"
| "getBaseZodType (ZEffects inner) = getBaseZodType inner"
| "getBaseZodType schema = schema"

fun shape :: "zod \<Rightarrow> (string \<times> zod) list" where
  "shape (ZObject props) = props"
| "shape _ = []"

section \<open>JavaScript objects\<close>

text \<open>
  A plain object is the list of its own enumerable string-keyed properties in property
  order: array-index keys (canonical decimal strings below \<open>2^32 - 1\<close>) ascending first,
  then every other key in insertion order.
\<close>

definition isDigit :: "char \<Rightarrow> bool" where
  "isDigit c = (48 \<le> (of_char c :: nat) \<and> (of_char c :: nat) \<le> 57)"

definition strToInt :: "string \<Rightarrow> int" where
  "strToInt s = foldl (\<lambda>n c. 10 * n + ((of_char c :: int) - 48)) 0 s"

definition isArrayIndex :: "string \<Rightarrow> bool" where
  "isArrayIndex s =
     (s \<noteq> [] \<and> list_all isDigit s \<and> (if hd s = CHR ''0'' then length s = 1 else True)
      \<and> strToInt s < 4294967295)"

fun insertIndex :: "string \<Rightarrow> 'v \<Rightarrow> (string \<times> 'v) list \<Rightarrow> (string \<times> 'v) list" where
  "insertIndex k v [] = [(k, v)]"
| "insertIndex k v ((k', v') # ps) =
     (if isArrayIndex k' \<and> strToInt k' \<le> strToInt k then (k', v') # insertIndex k v ps
      else (k, v) # (k', v') # ps)"

text \<open>
  Defining a data property: an existing key keeps its place and takes the new value, a
  new array-index key is placed among the index keys (after every index key that is not
  greater; two different index keys never have the same value), any other new key goes
  last.
\<close>

definition setProp :: "string \<Rightarrow> 'v \<Rightarrow> (string \<times> 'v) list \<Rightarrow> (string \<times> 'v) list" where
  "setProp k v ps =
     (if k \<in> fst ` set ps then map (\<lambda>(k', v'). if k' = k then (k', v) else (k', v')) ps
      else if isArrayIndex k then insertIndex k v ps
      else ps @ [(k, v)])"

definition Object_fromEntries :: "(string \<times> 'v) list \<Rightarrow> (string \<times> 'v) list" where
  "Object_fromEntries entries = foldl (\<lambda>obj (k, v). setProp k v obj) [] entries"

definition Object_keys :: "(string \<times> 'v) list \<Rightarrow> string list" where
  "Object_keys obj = map fst obj"

definition Object_values :: "(string \<times> 'v) list \<Rightarrow> 'v list" where
  "Object_values obj = map snd obj"

text \<open>The object literal \<open>{...a, ...b}\<close>: the properties of \<open>a\<close>, then those of \<open>b\<close>.\<close>

definition spread :: "(string \<times> 'v) list \<Rightarrow> (string \<times> 'v) list \<Rightarrow> (string \<times> 'v) list" where
  "spread a b = Object_fromEntries (a @ b)"

text \<open>
  The property names every plain object inherits from \<open>Object.prototype\<close>. A property
  read \<open>shape[key]\<close> finds an own property first and an inherited one otherwise; the
  inherited values are functions (and the prototype itself), none of them a schema.
\<close>

definition objectPrototypeKeys :: "string list" where
  "objectPrototypeKeys =
     [''constructor'', ''hasOwnProperty'', ''isPrototypeOf'', ''propertyIsEnumerable'',
      ''toLocaleString'', ''toString'', ''valueOf'', ''__proto__'',
      ''__defineGetter__'', ''__defineSetter__'', ''__lookupGetter__'', ''__lookupSetter__'']"

definition getProp :: "(string \<times> zod) list \<Rightarrow> string \<Rightarrow> zod option" where
  "getProp obj key =
     (case map_of obj key of
        Some v \<Rightarrow> Some v
      | None \<Rightarrow> if key \<in> set objectPrototypeKeys then Some NotZodType else None)"

section \<open>The path pattern\<close>

text \<open>
  \<open>path.matchAll(/\{(\w+)\}/g)\<close> followed by \<open>.map((m) => m[1])\<close>: the first capture
  group of every match, left to right. A match starts at an open brace, takes the longest
  run of word characters (at least one) and needs a close brace right after it; the scan
  resumes after a match, and one character further where none starts. The pattern has
  no \<open>u\<close> or \<open>i\<close> flag, so the word characters are the ASCII letters, the digits
  and the underscore; a template is a list of 8-bit characters here, and any character
  beyond ASCII is one more character that is neither a brace nor a word character.
\<close>

definition isWordChar :: "char \<Rightarrow> bool" where
  "isWordChar c =
     (let n = (of_char c :: nat)
      in (48 \<le> n \<and> n \<le> 57) \<or> (65 \<le> n \<and> n \<le> 90) \<or> n = 95 \<or> (97 \<le> n \<and> n \<le> 122))"

function matchAll :: "string \<Rightarrow> string list" where
  "matchAll [] = []"
| "matchAll (c # cs) =
     (if c = CHR ''{'' \<and> takeWhile isWordChar cs \<noteq> []
         \<and> dropWhile isWordChar cs \<noteq> [] \<and> hd (dropWhile isWordChar cs) = CHR ''}''
      then takeWhile isWordChar cs # matchAll (tl (dropWhile isWordChar cs))
      else matchAll cs)"
  by pat_completeness auto
termination
proof (relation "measure length")
  show "wf (measure length)" by simp
next
  fix c :: char and cs :: string
  assume "c = CHR ''{'' \<and> takeWhile isWordChar cs \<noteq> []
         \<and> dropWhile isWordChar cs \<noteq> [] \<and> hd (dropWhile isWordChar cs) = CHR ''}''"
  have "length (tl (dropWhile isWordChar cs)) \<le> length (dropWhile isWordChar cs)" by simp
  also have "\<dots> \<le> length cs" by (rule length_dropWhile_le)
  finally show "(tl (dropWhile isWordChar cs), c # cs) \<in> measure length" by simp
next
  fix c :: char and cs :: string
  show "(cs, c # cs) \<in> measure length" by simp
qed

section \<open>The library's part\<close>

text \<open>
  What the generator takes from zod and zod-to-json-schema, neither of which is part of
  the sources: \<open>isOptional\<close> is the schemas' \<open>isOptional()\<close> method,
  \<open>zodToJsonSchema\<close> renders a schema into a document of type \<open>'j\<close> (the target is
  always \<open>openApi3\<close>), and \<open>instanceKeys\<close> is \<open>Object.keys\<close> of a \<open>ZodObject\<close>
  instance: the own enumerable properties of the instance itself (\<open>_def\<close> and the
  methods its constructor binds), not the keys of its shape.
\<close>

record 'j library =
  isOptional :: "zod \<Rightarrow> bool"
  zodToJsonSchema :: "zod \<Rightarrow> 'j"
  instanceKeys :: "string list"

definition zodSchemaToOpenApiSchemaObject :: "'j library \<Rightarrow> zod \<Rightarrow> 'j" where
  "zodSchemaToOpenApiSchemaObject lib zodSchema = zodToJsonSchema lib zodSchema"

text \<open>\<open>schema.omit(mask)\<close>: a new object schema without the fields the mask names.\<close>

fun omit :: "zod \<Rightarrow> (string \<times> bool) list \<Rightarrow> zod" where
  "omit (ZObject props) keyMask = ZObject (filter (\<lambda>(k, v). k \<notin> set (Object_keys keyMask)) props)"
| "omit schema keyMask = schema"

section \<open>Errors and documents\<close>

text \<open>
  Every failure is a thrown \<open>TRPCError\<close> with code \<open>INTERNAL_SERVER_ERROR\<close>; the
  constructors name the messages:
  \<^item> \<open>NotASchema Input\<close>: "Input parser expects ZodType", \<open>NotASchema Output\<close>:
    "Output parser expects ZodType";
  \<^item> \<open>ObjectKindRequired\<close>: "Input parser expects ZodObject";
  \<^item> \<open>StringFieldRequired\<close>: "Input parser expects ZodObject<{ [string]: ZodString }>";
  \<^item> \<open>MalformedSegment\<close>: "An invalid dynamic URL segment found.";
  \<^item> \<open>UnknownPathField key\<close>: "A dynamic segment found with no matching input
    parameter: key".
\<close>

datatype parser = Input | Output

datatype TRPCError =
    NotASchema parser
  | ObjectKindRequired
  | StringFieldRequired
  | MalformedSegment
  | UnknownPathField string

datatype location = InQuery | InPath

record 'j ParameterObject =
  param_name :: string
  param_in :: location
  param_required :: bool
  param_schema :: 'j
  param_style :: string
  param_explode :: bool

record 'j RequestBodyObject =
  body_required :: bool
  body_content :: "(string \<times> 'j) list"

record 'j MutationInputObjects =
  requestBody :: "'j RequestBodyObject"
  parameters :: "'j ParameterObject list"

datatype 'j ResponseObject =
    Response string "(string \<times> 'j) list"
  | Reference string

record PathSchema =
  pathParams :: zod
  restParams :: zod

text \<open>\<open>Array.prototype.map\<close> with a callback that may throw: the first throw ends it.\<close>

fun array_map :: "('a \<Rightarrow> 'e + 'b) \<Rightarrow> 'a list \<Rightarrow> 'e + 'b list" where
  "array_map f [] = Inr []"
| "array_map f (x # xs) =
     (case f x of
        Inl e \<Rightarrow> Inl e
      | Inr y \<Rightarrow> (case array_map f xs of Inl e \<Rightarrow> Inl e | Inr ys \<Rightarrow> Inr (y # ys)))"

section \<open>The generator\<close>

definition pathEntry :: "(string \<times> zod) list \<Rightarrow> string \<Rightarrow> TRPCError + (string \<times> zod)" where
  "pathEntry shp key =
     (if key = [] then Inl MalformedSegment
      else case getProp shp key of
             None \<Rightarrow> Inl (UnknownPathField key)
           | Some inputParam \<Rightarrow> Inr (key, inputParam))"

text \<open>
  \<open>extractPathSchema\<close>. The mask handed to \<open>omit\<close> is built from
  \<open>Object.keys(pathParams)\<close>, the keys of the schema instance, where the loops below
  read \<open>Object.keys(... .shape)\<close>.
\<close>

definition extractPathSchema :: "'j library \<Rightarrow> zod \<Rightarrow> string \<Rightarrow> TRPCError + PathSchema" where
  "extractPathSchema lib sch path =
     (if \<not> zodInstanceofZodType sch then Inl (NotASchema Input)
      else if \<not> zodInstanceof sch ZodObject then Inl ObjectKindRequired
      else case array_map (pathEntry (shape sch)) (matchAll path) of
             Inl e \<Rightarrow> Inl e
           | Inr entries \<Rightarrow>
               Inr \<lparr>pathParams = ZObject (Object_fromEntries entries),
                    restParams =
                      omit sch (Object_fromEntries (map (\<lambda>k. (k, True)) (instanceKeys lib)))\<rparr>)"

text \<open>
  The two per-field callbacks. A key whose value is missing reads \<open>undefined\<close>, which is
  no \<open>ZodString\<close> either.
\<close>

definition pathParameterEntry ::
  "'j library \<Rightarrow> (string \<times> zod) list \<Rightarrow> string \<Rightarrow> TRPCError + (string \<times> 'j ParameterObject)" where
  "pathParameterEntry lib shp key =
     (case getProp shp key of
        None \<Rightarrow> Inl StringFieldRequired
      | Some val \<Rightarrow>
          if \<not> zodInstanceof (getBaseZodType val) ZodString then Inl StringFieldRequired
          else Inr (key,
                 \<lparr>param_name = key, param_in = InPath, param_required = (\<not> isOptional lib val),
                  param_schema = zodSchemaToOpenApiSchemaObject lib val,
                  param_style = ''simple'', param_explode = True\<rparr>))"

definition queryParameterEntry ::
  "'j library \<Rightarrow> (string \<times> zod) list \<Rightarrow> string \<Rightarrow> TRPCError + (string \<times> 'j ParameterObject)" where
  "queryParameterEntry lib shp key =
     (case getProp shp key of
        None \<Rightarrow> Inl StringFieldRequired
      | Some val \<Rightarrow>
          if \<not> zodInstanceof (getBaseZodType val) ZodString then Inl StringFieldRequired
          else Inr (key,
                 \<lparr>param_name = key, param_in = InQuery, param_required = (\<not> isOptional lib val),
                  param_schema = zodSchemaToOpenApiSchemaObject lib val,
                  param_style = ''form'', param_explode = True\<rparr>))"

definition schemaToPathParameterObjects ::
  "'j library \<Rightarrow> zod \<Rightarrow> TRPCError + (string \<times> 'j ParameterObject) list" where
  "schemaToPathParameterObjects lib sch =
     (case array_map (pathParameterEntry lib (shape sch)) (Object_keys (shape sch)) of
        Inl e \<Rightarrow> Inl e
      | Inr entries \<Rightarrow> Inr (Object_fromEntries entries))"

definition getParameterObjects ::
  "'j library \<Rightarrow> zod \<Rightarrow> string \<Rightarrow> TRPCError + 'j ParameterObject list" where
  "getParameterObjects lib sch path =
     (if \<not> zodInstanceofZodType sch then Inl (NotASchema Input)
      else if \<not> zodInstanceof sch ZodObject then Inl ObjectKindRequired
      else case extractPathSchema lib sch path of
             Inl e \<Rightarrow> Inl e
           | Inr parts \<Rightarrow>
               (case array_map (queryParameterEntry lib (shape (restParams parts)))
                       (Object_keys (shape (restParams parts))) of
                  Inl e \<Rightarrow> Inl e
                | Inr entries \<Rightarrow>
                    (case schemaToPathParameterObjects lib (pathParams parts) of
                       Inl e \<Rightarrow> Inl e
                     | Inr pathParamObjects \<Rightarrow>
                         Inr (Object_values
                               (spread (Object_fromEntries entries) pathParamObjects)))))"

definition getMutationInputObjects ::
  "'j library \<Rightarrow> zod \<Rightarrow> string \<Rightarrow> TRPCError + 'j MutationInputObjects" where
  "getMutationInputObjects lib sch path =
     (if \<not> zodInstanceofZodType sch then Inl (NotASchema Input)
      else case extractPathSchema lib sch path of
             Inl e \<Rightarrow> Inl e
           | Inr parts \<Rightarrow>
               (case schemaToPathParameterObjects lib (pathParams parts) of
                  Inl e \<Rightarrow> Inl e
                | Inr pathParamObjects \<Rightarrow>
                    Inr \<lparr>requestBody =
                           \<lparr>body_required = (\<not> isOptional lib (restParams parts)),
                            body_content =
                              [(''application/json'',
                                zodSchemaToOpenApiSchemaObject lib (restParams parts))]\<rparr>,
                         parameters = Object_values pathParamObjects\<rparr>))"

definition errorResponseObject :: "'j library \<Rightarrow> 'j ResponseObject" where
  "errorResponseObject lib =
     Response ''Error response''
       [(''application/json'',
         zodSchemaToOpenApiSchemaObject lib
           (ZObject
              [(''ok'', ZLiteral False),
               (''error'',
                ZObject
                  [(''message'', ZString), (''code'', ZString),
                   (''issues'', ZOptional (ZArray (ZObject [(''message'', ZString)])))])]))]"

definition getResponsesObject ::
  "'j library \<Rightarrow> zod \<Rightarrow> TRPCError + (string \<times> 'j ResponseObject) list" where
  "getResponsesObject lib sch =
     (if \<not> zodInstanceofZodType sch then Inl (NotASchema Output)
      else Inr [(''200'',
                 Response ''Successful response''
                   [(''application/json'',
                     zodSchemaToOpenApiSchemaObject lib
                       (ZObject [(''ok'', ZLiteral True), (''data'', sch)]))]),
                (''default'', Reference ''#/components/responses/error'')])"

section \<open>A library instance for concrete runs\<close>

text \<open>
  The theorems below hold for every library. To run the generator on concrete inputs
  one instance is fixed: \<open>isOptional()\<close> answers as zod does for a schema whose
  default values and effects accept what they are given (an optional or default wrapper
  accepts \<open>undefined\<close>, a nullable or effects wrapper does when its inner schema does,
  nothing else does), the rendering keeps the schema itself as its document, and the
  instance keys are those of a zod 3 \<open>ZodObject\<close>.
\<close>

fun zodIsOptional :: "zod \<Rightarrow> bool" where
  "zodIsOptional (ZOptional inner) = True"
| "zodIsOptional (ZDefault inner) = True"
| "zodIsOptional (ZNullable inner) = zodIsOptional inner"
| "zodIsOptional (ZEffects inner) = zodIsOptional inner"
| "zodIsOptional schema = False"

definition zod3 :: "zod library" where
  "zod3 =
     \<lparr>isOptional = zodIsOptional,
      zodToJsonSchema = (\<lambda>z. z),
      instanceKeys =
        [''spa'', ''_def'', ''parse'', ''safeParse'', ''parseAsync'', ''safeParseAsync'',
         ''refine'', ''refinement'', ''superRefine'', ''optional'', ''nullable'', ''nullish'',
         ''array'', ''promise'', ''or'', ''and'', ''transform'', ''default'', ''describe'',
         ''isNullable'', ''isOptional'', ''_cached'', ''nonstrict'', ''augment'', ''extend'']\<rparr>"

section \<open>Property order and the path-then-query order\<close>

text \<open>
  \<open>precedes a b\<close>: key \<open>a\<close> may stand before key \<open>b\<close> in an object's property order
  (an array-index key is preceded by smaller array-index keys only); \<open>propertyOrder\<close>
  holds of the key list of every object.
\<close>

definition precedes :: "string \<Rightarrow> string \<Rightarrow> bool" where
  "precedes a b =
     (a \<noteq> b \<and> (if isArrayIndex b then isArrayIndex a \<and> strToInt a \<le> strToInt b else True))"

definition propertyOrder :: "string list \<Rightarrow> bool" where
  "propertyOrder ks = sorted_wrt precedes ks"

text \<open>All path-location parameter objects stand before all query-location ones.\<close>

definition pathThenQuery :: "'j ParameterObject list \<Rightarrow> bool" where
  "pathThenQuery ps =
     (map param_in ps
        = filter (\<lambda>l. l = InPath) (map param_in ps) @ filter (\<lambda>l. l = InQuery) (map param_in ps))"

section \<open>Facts about the throwing map and about objects\<close>

lemma array_map_Inl: "array_map f xs = Inl e \<Longrightarrow> \<exists>x\<in>set xs. f x = Inl e"
  by (induction xs arbitrary: e) (auto split: sum.splits)

lemma array_map_Inr: "array_map f xs = Inr ys \<Longrightarrow> list_all2 (\<lambda>x y. f x = Inr y) xs ys"
  by (induction xs arbitrary: ys) (auto split: sum.splits)

lemma array_map_total:
  "(\<And>x. x \<in> set xs \<Longrightarrow> \<exists>y. f x = Inr y) \<Longrightarrow> \<exists>ys. array_map f xs = Inr ys"
  by (induction xs) (fastforce split: sum.splits)+

lemma array_map_first_error:
  "(\<And>x. x \<in> set xs \<Longrightarrow> f x = Inl e \<or> (\<exists>y. f x = Inr y)) \<Longrightarrow> \<exists>x\<in>set xs. f x = Inl e
     \<Longrightarrow> array_map f xs = Inl e"
proof (induction xs)
  case Nil
  then show ?case by simp
next
  case (Cons x xs)
  show ?case
  proof (cases "f x")
    case (Inl e')
    with Cons.prems(1)[of x] show ?thesis by auto
  next
    case (Inr y)
    with Cons.prems(2) have "\<exists>x\<in>set xs. f x = Inl e" by auto
    with Cons.IH Cons.prems(1) have "array_map f xs = Inl e" by auto
    with Inr show ?thesis by simp
  qed
qed

lemma set_insertIndex: "set (insertIndex k v ps) = insert (k, v) (set ps)"
  by (induction ps) (auto split: if_splits)

lemma keys_update_in_place:
  "map fst (map (\<lambda>(k', v'). if k' = k then (k', v) else (k', v')) ps) = map fst ps"
  by (induction ps) auto

lemma keys_setProp: "fst ` set (setProp k v ps) = insert k (fst ` set ps)"
proof (cases "k \<in> fst ` set ps")
  case True
  have "fst ` set (setProp k v ps) = set (map fst (setProp k v ps))" by simp
  also have "\<dots> = set (map fst ps)" using True by (simp only: setProp_def if_True keys_update_in_place)
  finally show ?thesis using True by auto
next
  case False
  then show ?thesis by (auto simp: setProp_def set_insertIndex)
qed

lemma distinct_insertIndex:
  "k \<notin> fst ` set ps \<Longrightarrow> distinct (map fst ps) \<Longrightarrow> distinct (map fst (insertIndex k v ps))"
proof (induction ps)
  case Nil
  then show ?case by simp
next
  case (Cons p ps)
  obtain k' v' where p: "p = (k', v')" by (cases p)
  from Cons.prems have "k' \<notin> fst ` set (insertIndex k v ps)"
    by (auto simp: p set_insertIndex)
  with Cons show ?case by (auto simp: p)
qed

lemma distinct_setProp: "distinct (map fst ps) \<Longrightarrow> distinct (map fst (setProp k v ps))"
proof (cases "k \<in> fst ` set ps")
  case True
  assume "distinct (map fst ps)"
  then show ?thesis using True by (simp only: setProp_def if_True keys_update_in_place)
next
  case False
  assume "distinct (map fst ps)"
  then show ?thesis using False by (auto simp: setProp_def distinct_insertIndex)
qed

lemma map_of_update_in_place:
  "k \<in> fst ` set ps \<Longrightarrow>
   map_of (map (\<lambda>(k', v'). if k' = k then (k', v) else (k', v')) ps) = (map_of ps)(k \<mapsto> v)"
proof (induction ps)
  case Nil
  then show ?case by simp
next
  case (Cons p ps)
  obtain k' v' where p: "p = (k', v')" by (cases p)
  show ?case
  proof (cases "k \<in> fst ` set ps")
    case True
    with Cons.IH show ?thesis by (auto simp: p fun_eq_iff)
  next
    case False
    then have "map (\<lambda>(k', v'). if k' = k then (k', v) else (k', v')) ps = ps"
      by (induction ps) auto
    with Cons.prems False show ?thesis by (auto simp: p fun_eq_iff)
  qed
qed

lemma map_of_insertIndex:
  "k \<notin> fst ` set ps \<Longrightarrow> map_of (insertIndex k v ps) = (map_of ps)(k \<mapsto> v)"
  by (induction ps) (auto simp: fun_eq_iff)

lemma map_of_setProp: "map_of (setProp k v ps) = (map_of ps)(k \<mapsto> v)"
proof (cases "k \<in> fst ` set ps")
  case True
  then show ?thesis by (simp only: setProp_def if_True map_of_update_in_place)
next
  case False
  then have "map_of ps k = None" by (simp add: map_of_eq_None_iff)
  with False show ?thesis
    by (auto simp: setProp_def map_of_insertIndex fun_eq_iff map_add_def split: option.splits)
qed

lemma foldl_setProp_keys:
  "fst ` set (foldl (\<lambda>obj (k, v). setProp k v obj) acc es) = fst ` set acc \<union> fst ` set es"
proof (induction es arbitrary: acc)
  case Nil
  then show ?case by simp
next
  case (Cons e es)
  obtain k v where e: "e = (k, v)" by (cases e)
  have "fst ` set (foldl (\<lambda>obj (k, v). setProp k v obj) (setProp k v acc) es)
          = insert k (fst ` set acc) \<union> fst ` set es"
    by (simp only: Cons.IH keys_setProp)
  then show ?case by (simp add: e)
qed

lemma foldl_setProp_distinct:
  "distinct (map fst acc) \<Longrightarrow> distinct (map fst (foldl (\<lambda>obj (k, v). setProp k v obj) acc es))"
  by (induction es arbitrary: acc) (auto simp: distinct_setProp split: prod.splits)

lemma foldl_setProp_map_of:
  "map_of (foldl (\<lambda>obj (k, v). setProp k v obj) acc es) = map_of acc ++ map_of (rev es)"
proof (induction es arbitrary: acc)
  case Nil
  then show ?case by simp
next
  case (Cons e es)
  obtain k v where e: "e = (k, v)" by (cases e)
  show ?case by (simp add: e Cons.IH map_of_setProp fun_eq_iff map_add_def split: option.splits)
qed

lemma keys_fromEntries: "set (Object_keys (Object_fromEntries es)) = fst ` set es"
  using foldl_setProp_keys[of "[]" es] by (simp add: Object_fromEntries_def Object_keys_def)

lemma distinct_fromEntries: "distinct (Object_keys (Object_fromEntries es))"
  using foldl_setProp_distinct[of "[]" es] by (simp add: Object_fromEntries_def Object_keys_def)

lemma map_of_fromEntries: "map_of (Object_fromEntries es) = map_of (rev es)"
  using foldl_setProp_map_of[of "[]" es] by (simp add: Object_fromEntries_def)

lemma matchAll_nonempty: "[] \<notin> set (matchAll path)"
  by (induction path rule: matchAll.induct) auto

lemma pathEntry_Malformed: "pathEntry shp key = Inl MalformedSegment \<Longrightarrow> key = []"
  by (auto simp: pathEntry_def split: if_splits option.splits)

lemma extractPathSchema_Inl:
  assumes "extractPathSchema lib sch path = Inl e"
  shows "e = NotASchema Input \<or> e = ObjectKindRequired
         \<or> array_map (pathEntry (shape sch)) (matchAll path) = Inl e"
proof (cases "array_map (pathEntry (shape sch)) (matchAll path)")
  case (Inl e')
  with assms show ?thesis by (simp add: extractPathSchema_def split: if_splits)
next
  case (Inr entries)
  with assms show ?thesis by (simp add: extractPathSchema_def split: if_splits)
qed

lemma extractPathSchema_Inr:
  assumes "extractPathSchema lib sch path = Inr parts"
  shows "zodInstanceof sch ZodObject
         \<and> (\<exists>entries. array_map (pathEntry (shape sch)) (matchAll path) = Inr entries
              \<and> pathParams parts = ZObject (Object_fromEntries entries))
         \<and> restParams parts
             = omit sch (Object_fromEntries (map (\<lambda>k. (k, True)) (instanceKeys lib)))"
proof (cases "array_map (pathEntry (shape sch)) (matchAll path)")
  case (Inl e')
  with assms show ?thesis by (simp add: extractPathSchema_def split: if_splits)
next
  case (Inr entries)
  with assms show ?thesis by (auto simp add: extractPathSchema_def split: if_splits)
qed

section \<open>Properties of the generator\<close>

text \<open>
  C9. The \<open>MalformedSegment\<close> branch cannot be reached: no name captured by the segment
  pattern is empty, for any template, so \<open>extractPathSchema\<close> never fails with
  \<open>MalformedSegment\<close>; the guard is in the code all the same, and an empty key would
  raise it.
\<close>

theorem malformed_segment_unreachable:
  "[] \<notin> set (matchAll path)
   \<and> extractPathSchema lib sch path \<noteq> Inl MalformedSegment
   \<and> pathEntry shp [] = Inl MalformedSegment"
proof -
  have "extractPathSchema lib sch path \<noteq> Inl MalformedSegment"
  proof
    assume a: "extractPathSchema lib sch path = Inl MalformedSegment"
    have "array_map (pathEntry (shape sch)) (matchAll path) = Inl MalformedSegment"
      using extractPathSchema_Inl [OF a] by simp
    from array_map_Inl [OF this]
    obtain k where k: "k \<in> set (matchAll path)" "pathEntry (shape sch) k = Inl MalformedSegment"
      by auto
    from pathEntry_Malformed [OF k(2)] k(1) show False
      by (simp add: matchAll_nonempty)
  qed
  then show ?thesis by (simp add: matchAll_nonempty pathEntry_def)
qed

theorem malformed_segment_unreachable_witness:
  "[] \<notin> set (matchAll ''/a/{}/{b}'')
   \<and> extractPathSchema zod3 (ZObject [(''b'', ZString)]) ''/a/{}/{b}'' \<noteq> Inl MalformedSegment
   \<and> pathEntry [(''b'', ZString)] [] = Inl MalformedSegment"
  by (rule malformed_segment_unreachable)

text \<open>
  C8. \<open>getBaseZodType\<close> follows the inner node of an optional, default or effects wrapper,
  returns every node of another kind unchanged (a nullable wrapper among them, which it
  never unwraps), and so always ends at a node that is none of the three wrappers.
\<close>

theorem getBaseZodType_unwraps:
  "getBaseZodType (ZOptional s) = getBaseZodType s
   \<and> getBaseZodType (ZDefault s) = getBaseZodType s
   \<and> getBaseZodType (ZEffects s) = getBaseZodType s
   \<and> getBaseZodType (ZNullable s) = ZNullable s
   \<and> (\<not> zodInstanceof s ZodOptional \<and> \<not> zodInstanceof s ZodDefault \<and> \<not> zodInstanceof s ZodEffects
        \<longrightarrow> getBaseZodType s = s)
   \<and> \<not> zodInstanceof (getBaseZodType s) ZodOptional
   \<and> \<not> zodInstanceof (getBaseZodType s) ZodDefault
   \<and> \<not> zodInstanceof (getBaseZodType s) ZodEffects"
proof -
  have same: "\<not> zodInstanceof s ZodOptional \<and> \<not> zodInstanceof s ZodDefault \<and> \<not> zodInstanceof s ZodEffects
        \<longrightarrow> getBaseZodType s = s"
    by (cases s) (simp_all add: zodInstanceof_def)
  have base: "\<not> zodInstanceof (getBaseZodType s) ZodOptional
      \<and> \<not> zodInstanceof (getBaseZodType s) ZodDefault
      \<and> \<not> zodInstanceof (getBaseZodType s) ZodEffects"
    by (induction s rule: getBaseZodType.induct) (simp_all add: zodInstanceof_def)
  from same base show ?thesis by simp
qed

theorem getBaseZodType_unwraps_witness:
  "getBaseZodType (ZOptional (ZDefault (ZEffects (ZNullable (ZOptional ZString)))))
     = ZNullable (ZOptional ZString)
   \<and> getBaseZodType (ZNullable (ZOptional ZString)) = ZNullable (ZOptional ZString)
   \<and> \<not> zodInstanceof (ZNullable (ZOptional ZString)) ZodOptional"
  using getBaseZodType_unwraps [of "ZDefault (ZEffects (ZNullable (ZOptional ZString)))"]
    getBaseZodType_unwraps [of "ZEffects (ZNullable (ZOptional ZString))"]
    getBaseZodType_unwraps [of "ZNullable (ZOptional ZString)"]
    getBaseZodType_unwraps [of "ZOptional ZString"]
  by (simp add: zodInstanceof_def)

text \<open>
  C6. A schema whose kind is not \<open>ZodObject\<close> (a string, an optional, default or effects
  wrapper, any other kind) makes \<open>getParameterObjects\<close> fail with
  \<open>ObjectKindRequired\<close>; the failure is the whole result, no parameter object is emitted.
\<close>

theorem non_object_rejected:
  assumes "zodInstanceofZodType sch" and "\<not> zodInstanceof sch ZodObject"
  shows "getParameterObjects lib sch path = Inl ObjectKindRequired"
  using assms by (simp add: getParameterObjects_def)

theorem non_object_rejected_witness:
  "getParameterObjects zod3 ZString ''/users/{id}'' = Inl ObjectKindRequired
   \<and> getParameterObjects zod3 (ZOptional (ZObject [(''id'', ZString)])) ''/users/{id}'' = Inl ObjectKindRequired
   \<and> getParameterObjects zod3 (ZDefault (ZObject [(''id'', ZString)])) ''/users/{id}'' = Inl ObjectKindRequired
   \<and> getParameterObjects zod3 (ZEffects (ZObject [(''id'', ZString)])) ''/users/{id}'' = Inl ObjectKindRequired
   \<and> getParameterObjects zod3 (ZOther ''ZodNumber'') ''/users/{id}'' = Inl ObjectKindRequired"
  using non_object_rejected [of ZString zod3 "''/users/{id}''"]
    non_object_rejected [of "ZOptional (ZObject [(''id'', ZString)])" zod3 "''/users/{id}''"]
    non_object_rejected [of "ZDefault (ZObject [(''id'', ZString)])" zod3 "''/users/{id}''"]
    non_object_rejected [of "ZEffects (ZObject [(''id'', ZString)])" zod3 "''/users/{id}''"]
    non_object_rejected [of "ZOther ''ZodNumber''" zod3 "''/users/{id}''"]
  by (simp add: zodInstanceofZodType_def zodInstanceof_def)

text \<open>
  C7. For every output schema, \<open>getResponsesObject\<close> returns a \<open>200\<close> entry whose inline
  schema renders the envelope \<open>{ok: true, data: schema}\<close> and a \<open>default\<close> entry that is
  a reference to \<open>#/components/responses/error\<close>, not an inline schema.
\<close>

theorem responses_object:
  assumes "zodInstanceofZodType sch"
  shows "getResponsesObject lib sch
           = Inr [(''200'',
                   Response ''Successful response''
                     [(''application/json'',
                       zodToJsonSchema lib (ZObject [(''ok'', ZLiteral True), (''data'', sch)]))]),
                  (''default'', Reference ''#/components/responses/error'')]"
  using assms by (simp add: getResponsesObject_def zodSchemaToOpenApiSchemaObject_def)

theorem responses_object_witness:
  "zodInstanceofZodType (ZOther ''ZodNumber'')
   \<and> getResponsesObject zod3 (ZOther ''ZodNumber'')
       = Inr [(''200'', Response ''Successful response''
                 [(''application/json'', ZObject [(''ok'', ZLiteral True), (''data'', ZOther ''ZodNumber'')])]),
              (''default'', Reference ''#/components/responses/error'')]"
  using responses_object [of "ZOther ''ZodNumber''" zod3]
  by (simp add: zodInstanceofZodType_def zod3_def)

lemma array_map_error_source:
  "\<exists>x\<in>set xs. \<exists>e. f x = Inl e \<Longrightarrow> \<exists>x\<in>set xs. \<exists>e. f x = Inl e \<and> array_map f xs = Inl e"
proof (induction xs)
  case Nil
  then show ?case by simp
next
  case (Cons x xs)
  show ?case
  proof (cases "f x")
    case (Inl e)
    then show ?thesis by simp
  next
    case (Inr y)
    with Cons.prems have "\<exists>x\<in>set xs. \<exists>e. f x = Inl e" by auto
    from Cons.IH [OF this] obtain x' e where "x' \<in> set xs" "f x' = Inl e" "array_map f xs = Inl e"
      by auto
    with Inr show ?thesis by auto
  qed
qed

lemma schemaToPathParameterObjects_Inr:
  assumes "schemaToPathParameterObjects lib sch = Inr pobjs"
  shows "\<exists>entries. array_map (pathParameterEntry lib (shape sch)) (Object_keys (shape sch)) = Inr entries
           \<and> pobjs = Object_fromEntries entries"
proof (cases "array_map (pathParameterEntry lib (shape sch)) (Object_keys (shape sch))")
  case (Inl e)
  with assms show ?thesis by (simp add: schemaToPathParameterObjects_def)
next
  case (Inr entries)
  with assms show ?thesis by (simp add: schemaToPathParameterObjects_def)
qed

lemma getMutationInputObjects_Inr:
  assumes "getMutationInputObjects lib sch path = Inr r"
  shows "\<exists>parts pobjs. extractPathSchema lib sch path = Inr parts
           \<and> schemaToPathParameterObjects lib (pathParams parts) = Inr pobjs
           \<and> r = \<lparr>requestBody =
                     \<lparr>body_required = (\<not> isOptional lib (restParams parts)),
                      body_content =
                        [(''application/json'', zodToJsonSchema lib (restParams parts))]\<rparr>,
                   parameters = Object_values pobjs\<rparr>"
proof (cases "extractPathSchema lib sch path")
  case (Inl e)
  with assms show ?thesis by (simp add: getMutationInputObjects_def split: if_splits)
next
  case parts: (Inr parts)
  show ?thesis
  proof (cases "schemaToPathParameterObjects lib (pathParams parts)")
    case (Inl e)
    with assms parts show ?thesis by (simp add: getMutationInputObjects_def split: if_splits)
  next
    case (Inr pobjs)
    with assms parts show ?thesis
      by (simp add: getMutationInputObjects_def zodSchemaToOpenApiSchemaObject_def split: if_splits)
  qed
qed

lemma omit_object: "zodInstanceof sch ZodObject \<Longrightarrow> zodInstanceof (omit sch m) ZodObject"
  by (cases sch) (simp_all add: zodInstanceof_def)

text \<open>
  C10. Whenever \<open>getMutationInputObjects\<close> succeeds the request body is required: the
  schema was a plain \<open>ZodObject\<close> (an optional or default wrapper around an object is
  rejected with \<open>ObjectKindRequired\<close>), the remainder built by \<open>omit\<close> is a
  \<open>ZodObject\<close> again, and \<open>isOptional()\<close> of an object schema is false. That last fact
  is the library's and is the theorem's second premise.
\<close>

theorem request_body_required:
  assumes "getMutationInputObjects lib sch path = Inr r"
      and "\<And>props. \<not> isOptional lib (ZObject props)"
  shows "body_required (requestBody r) = True
         \<and> zodInstanceof sch ZodObject
         \<and> (\<exists>parts. extractPathSchema lib sch path = Inr parts
               \<and> zodInstanceof (restParams parts) ZodObject
               \<and> body_required (requestBody r) = (\<not> isOptional lib (restParams parts)))
         \<and> getMutationInputObjects lib (ZOptional inner) path = Inl ObjectKindRequired
         \<and> getMutationInputObjects lib (ZDefault inner) path = Inl ObjectKindRequired"
proof -
  from getMutationInputObjects_Inr [OF assms(1)] obtain parts pobjs where
    parts: "extractPathSchema lib sch path = Inr parts" and
    r: "body_required (requestBody r) = (\<not> isOptional lib (restParams parts))"
    by auto
  from extractPathSchema_Inr [OF parts] have obj: "zodInstanceof sch ZodObject" and
    rest: "restParams parts = omit sch (Object_fromEntries (map (\<lambda>k. (k, True)) (instanceKeys lib)))"
    by simp_all
  from obj rest have robj: "zodInstanceof (restParams parts) ZodObject" by (simp add: omit_object)
  then obtain props where "restParams parts = ZObject props"
    by (cases "restParams parts") (simp_all add: zodInstanceof_def)
  with assms(2) r have "body_required (requestBody r) = True" by simp
  moreover have "getMutationInputObjects lib (ZOptional inner) path = Inl ObjectKindRequired"
    by (simp add: getMutationInputObjects_def extractPathSchema_def zodInstanceofZodType_def
        zodInstanceof_def)
  moreover have "getMutationInputObjects lib (ZDefault inner) path = Inl ObjectKindRequired"
    by (simp add: getMutationInputObjects_def extractPathSchema_def zodInstanceofZodType_def
        zodInstanceof_def)
  ultimately show ?thesis using obj parts robj r by auto
qed

lemma zod3_object_not_optional: "\<not> isOptional zod3 (ZObject props)"
  by (simp add: zod3_def)

theorem request_body_required_witness:
  "getMutationInputObjects zod3 (ZObject [(''id'', ZString), (''n'', ZOther ''ZodNumber'')]) ''/posts/{id}''
     = Inr \<lparr>requestBody =
              \<lparr>body_required = True,
               body_content =
                 [(''application/json'', ZObject [(''id'', ZString), (''n'', ZOther ''ZodNumber'')])]\<rparr>,
            parameters =
              [\<lparr>param_name = ''id'', param_in = InPath, param_required = True,
                param_schema = ZString, param_style = ''simple'', param_explode = True\<rparr>]\<rparr>
   \<and> body_required (requestBody
         \<lparr>requestBody =
              \<lparr>body_required = True,
               body_content =
                 [(''application/json'', ZObject [(''id'', ZString), (''n'', ZOther ''ZodNumber'')])]\<rparr>,
            parameters =
              [\<lparr>param_name = ''id'', param_in = InPath, param_required = True,
                param_schema = ZString, param_style = ''simple'', param_explode = True\<rparr>]\<rparr>) = True
   \<and> getMutationInputObjects zod3 (ZOptional (ZObject [(''id'', ZString)])) ''/posts/{id}''
       = Inl ObjectKindRequired"
proof -
  have run: "getMutationInputObjects zod3 (ZObject [(''id'', ZString), (''n'', ZOther ''ZodNumber'')]) ''/posts/{id}''
     = Inr \<lparr>requestBody =
              \<lparr>body_required = True,
               body_content =
                 [(''application/json'', ZObject [(''id'', ZString), (''n'', ZOther ''ZodNumber'')])]\<rparr>,
            parameters =
              [\<lparr>param_name = ''id'', param_in = InPath, param_required = True,
                param_schema = ZString, param_style = ''simple'', param_explode = True\<rparr>]\<rparr>"
    by code_simp
  from request_body_required [OF run zod3_object_not_optional, of "ZObject [(''id'', ZString)]"] run
  show ?thesis by simp
qed

text \<open>
  C5. A template that names a field the schema does not have should fail with
  \<open>UnknownPathField\<close>. The code reads \<open>shape[key]\<close> and tests the result against null,
  and a name every object inherits (\<open>toString\<close>, \<open>constructor\<close>, ...) reads as a
  function: for the schema \<open>{id: string}\<close> and the template \<open>/users/{toString}\<close>
  the partition succeeds, and both entry points fail later with
  \<open>StringFieldRequired\<close> instead. For any other missing name the error is raised
  (\<open>unknown_path_field\<close> below).
\<close>

theorem inherited_name_not_reported:
  "(\<exists>parts. extractPathSchema lib (ZObject [(''id'', ZString)]) ''/users/{toString}'' = Inr parts)
   \<and> getParameterObjects lib (ZObject [(''id'', ZString)]) ''/users/{toString}''
       = Inl StringFieldRequired
   \<and> getMutationInputObjects lib (ZObject [(''id'', ZString)]) ''/users/{toString}''
       = Inl StringFieldRequired"
  by (simp add: getParameterObjects_def getMutationInputObjects_def extractPathSchema_def
      zodInstanceofZodType_def zodInstanceof_def isWordChar_def pathEntry_def getProp_def
      objectPrototypeKeys_def Object_fromEntries_def setProp_def isArrayIndex_def isDigit_def
      Object_keys_def queryParameterEntry_def schemaToPathParameterObjects_def
      pathParameterEntry_def)

lemma pathEntry_cases:
  "pathEntry shp key = Inl MalformedSegment \<or> pathEntry shp key = Inl (UnknownPathField key)
   \<or> (\<exists>v. getProp shp key = Some v \<and> pathEntry shp key = Inr (key, v))"
  by (simp add: pathEntry_def split: option.splits)

lemma unknown_path_field:
  assumes "zodInstanceof sch ZodObject" and "key \<in> set (matchAll path)"
      and "getProp (shape sch) key = None"
  shows "\<exists>k\<in>set (matchAll path). extractPathSchema lib sch path = Inl (UnknownPathField k)"
proof -
  from assms(2) matchAll_nonempty have "key \<noteq> []" by metis
  with assms(3) have "pathEntry (shape sch) key = Inl (UnknownPathField key)"
    by (simp add: pathEntry_def)
  with assms(2) have "\<exists>x\<in>set (matchAll path). \<exists>e. pathEntry (shape sch) x = Inl e" by auto
  from array_map_error_source [OF this] obtain k e where
    k: "k \<in> set (matchAll path)" "pathEntry (shape sch) k = Inl e"
       "array_map (pathEntry (shape sch)) (matchAll path) = Inl e" by auto
  from k(1) matchAll_nonempty have "k \<noteq> []" by metis
  with k(2) have "e = UnknownPathField k"
    by (simp add: pathEntry_def split: option.splits)
  with k(3) assms(1) have "extractPathSchema lib sch path = Inl (UnknownPathField k)"
    by (simp add: extractPathSchema_def zodInstanceof_def zodInstanceofZodType_def)
  with k(1) show ?thesis by auto
qed

lemma mask_keys:
  "set (Object_keys (Object_fromEntries (map (\<lambda>k. (k, True)) ks))) = set ks"
  by (simp add: keys_fromEntries image_image)

lemma restParams_shape:
  assumes "extractPathSchema lib sch path = Inr parts"
  shows "shape (restParams parts) = filter (\<lambda>(k, v). k \<notin> set (instanceKeys lib)) (shape sch)"
proof -
  from extractPathSchema_Inr [OF assms] have obj: "zodInstanceof sch ZodObject" and
    rest: "restParams parts = omit sch (Object_fromEntries (map (\<lambda>k. (k, True)) (instanceKeys lib)))"
    by simp_all
  from obj obtain props where "sch = ZObject props"
    by (cases sch) (simp_all add: zodInstanceof_def)
  with rest show ?thesis by (simp add: mask_keys)
qed

text \<open>
  C1. The two subsets should be disjoint. The mask given to \<open>omit\<close> holds the keys of
  the \<open>pathParams\<close> instance instead of the keys of its shape, so a path field stays in
  the remainder: for the schema \<open>{id: string, title: string}\<close> and the template
  \<open>/posts/{id}\<close> the field \<open>id\<close> is in both subsets, whenever \<open>id\<close> is not itself
  an own property name of a \<open>ZodObject\<close> instance.
\<close>

theorem partition_overlap:
  assumes "''id'' \<notin> set (instanceKeys lib)"
  shows "\<exists>parts. extractPathSchema lib (ZObject [(''id'', ZString), (''title'', ZString)]) ''/posts/{id}''
                   = Inr parts
           \<and> ''id'' \<in> set (Object_keys (shape (pathParams parts)))
           \<and> ''id'' \<in> set (Object_keys (shape (restParams parts)))"
proof -
  have entries: "array_map (pathEntry (shape (ZObject [(''id'', ZString), (''title'', ZString)])))
                   (matchAll ''/posts/{id}'') = Inr [(''id'', ZString)]"
    by code_simp
  have obj: "Object_fromEntries [(''id'', ZString)] = [(''id'', ZString)]"
    by code_simp
  have run: "extractPathSchema lib (ZObject [(''id'', ZString), (''title'', ZString)]) ''/posts/{id}''
      = Inr \<lparr>pathParams = ZObject [(''id'', ZString)],
             restParams = omit (ZObject [(''id'', ZString), (''title'', ZString)])
                            (Object_fromEntries (map (\<lambda>k. (k, True)) (instanceKeys lib)))\<rparr>"
    unfolding extractPathSchema_def entries
    by (simp add: obj zodInstanceofZodType_def zodInstanceof_def)
  from restParams_shape [OF run] assms
  have "''id'' \<in> set (Object_keys (shape (restParams
          \<lparr>pathParams = ZObject [(''id'', ZString)],
           restParams = omit (ZObject [(''id'', ZString), (''title'', ZString)])
                          (Object_fromEntries (map (\<lambda>k. (k, True)) (instanceKeys lib)))\<rparr>)))"
    by (simp add: Object_keys_def)
  with run show ?thesis by (simp add: Object_keys_def)
qed

theorem partition_overlap_witness:
  "''id'' \<notin> set (instanceKeys zod3)
   \<and> extractPathSchema zod3 (ZObject [(''id'', ZString), (''title'', ZString)]) ''/posts/{id}''
       = Inr \<lparr>pathParams = ZObject [(''id'', ZString)],
              restParams = ZObject [(''id'', ZString), (''title'', ZString)]\<rparr>"
proof -
  have k: "''id'' \<notin> set (instanceKeys zod3)" by code_simp
  have run: "extractPathSchema zod3 (ZObject [(''id'', ZString), (''title'', ZString)]) ''/posts/{id}''
       = Inr \<lparr>pathParams = ZObject [(''id'', ZString)],
              restParams = ZObject [(''id'', ZString), (''title'', ZString)]\<rparr>"
    by code_simp
  from partition_overlap [OF k] k run show ?thesis by simp
qed

lemma array_map_Inr_source:
  "array_map f xs = Inr ys \<Longrightarrow> y \<in> set ys \<Longrightarrow> \<exists>x\<in>set xs. f x = Inr y"
  by (induction xs arbitrary: ys) (auto split: sum.splits)

lemma array_map_Inr_image:
  "array_map f xs = Inr ys \<Longrightarrow> x \<in> set xs \<Longrightarrow> \<exists>y\<in>set ys. f x = Inr y"
  by (induction xs arbitrary: ys) (auto split: sum.splits)

lemma array_map_Inr_keys:
  "array_map f xs = Inr ys \<Longrightarrow> (\<And>x y. f x = Inr y \<Longrightarrow> g y = x) \<Longrightarrow> map g ys = xs"
  by (induction xs arbitrary: ys) (auto split: sum.splits)

lemma set_setProp: "set (setProp k v ps) \<subseteq> insert (k, v) (set ps)"
  by (auto simp: setProp_def set_insertIndex split: if_splits)

lemma foldl_setProp_subset:
  "set (foldl (\<lambda>obj (k, v). setProp k v obj) acc es) \<subseteq> set acc \<union> set es"
proof (induction es arbitrary: acc)
  case Nil
  then show ?case by simp
next
  case (Cons e es)
  obtain k v where e: "e = (k, v)" by (cases e)
  from Cons.IH [of "setProp k v acc"] set_setProp [of k v acc]
  show ?case by (auto simp: e)
qed

lemma set_fromEntries: "set (Object_fromEntries es) \<subseteq> set es"
  using foldl_setProp_subset [of "[]" es] by (simp add: Object_fromEntries_def)

lemma getProp_own:
  "getProp shp key = Some val \<Longrightarrow> zodInstanceof (getBaseZodType val) ZodString
     \<Longrightarrow> map_of shp key = Some val"
  by (auto simp: getProp_def zodInstanceof_def split: option.splits if_splits)

lemma getProp_of_own: "map_of shp key = Some val \<Longrightarrow> getProp shp key = Some val"
  by (simp add: getProp_def)

lemma queryParameterEntry_Inr:
  assumes "queryParameterEntry lib shp key = Inr e"
  shows "\<exists>val. map_of shp key = Some val \<and> zodInstanceof (getBaseZodType val) ZodString
           \<and> e = (key, \<lparr>param_name = key, param_in = InQuery,
                         param_required = (\<not> isOptional lib val),
                         param_schema = zodToJsonSchema lib val,
                         param_style = ''form'', param_explode = True\<rparr>)"
proof (cases "getProp shp key")
  case None
  with assms show ?thesis by (simp add: queryParameterEntry_def)
next
  case (Some val)
  with assms have s: "zodInstanceof (getBaseZodType val) ZodString"
    by (simp add: queryParameterEntry_def split: if_splits)
  with Some assms getProp_own [OF Some s] show ?thesis
    by (simp add: queryParameterEntry_def zodSchemaToOpenApiSchemaObject_def)
qed

lemma pathParameterEntry_Inr:
  assumes "pathParameterEntry lib shp key = Inr e"
  shows "\<exists>val. map_of shp key = Some val \<and> zodInstanceof (getBaseZodType val) ZodString
           \<and> e = (key, \<lparr>param_name = key, param_in = InPath,
                         param_required = (\<not> isOptional lib val),
                         param_schema = zodToJsonSchema lib val,
                         param_style = ''simple'', param_explode = True\<rparr>)"
proof (cases "getProp shp key")
  case None
  with assms show ?thesis by (simp add: pathParameterEntry_def)
next
  case (Some val)
  with assms have s: "zodInstanceof (getBaseZodType val) ZodString"
    by (simp add: pathParameterEntry_def split: if_splits)
  with Some assms getProp_own [OF Some s] show ?thesis
    by (simp add: pathParameterEntry_def zodSchemaToOpenApiSchemaObject_def)
qed

lemma queryParameterEntry_cases:
  "queryParameterEntry lib shp key = Inl StringFieldRequired
   \<or> (\<exists>e. queryParameterEntry lib shp key = Inr e)"
  by (simp add: queryParameterEntry_def split: option.splits)

lemma pathParameterEntry_cases:
  "pathParameterEntry lib shp key = Inl StringFieldRequired
   \<or> (\<exists>e. pathParameterEntry lib shp key = Inr e)"
  by (simp add: pathParameterEntry_def split: option.splits)

lemma pathParameterEntry_string:
  "map_of shp key = Some val \<Longrightarrow> zodInstanceof (getBaseZodType val) ZodString
     \<Longrightarrow> \<exists>e. pathParameterEntry lib shp key = Inr e"
  by (simp add: pathParameterEntry_def getProp_def)

lemma queryParameterEntry_not_string:
  "map_of shp key = Some val \<Longrightarrow> \<not> zodInstanceof (getBaseZodType val) ZodString
     \<Longrightarrow> queryParameterEntry lib shp key = Inl StringFieldRequired"
  by (simp add: queryParameterEntry_def getProp_def)

lemma pathParams_distinct:
  assumes "extractPathSchema lib sch path = Inr parts"
  shows "distinct (map fst (shape (pathParams parts)))"
proof -
  from extractPathSchema_Inr [OF assms] obtain entries where
    "pathParams parts = ZObject (Object_fromEntries entries)" by auto
  with distinct_fromEntries [of entries] show ?thesis by (simp add: Object_keys_def)
qed

lemma pathParams_entry:
  assumes "extractPathSchema lib sch path = Inr parts"
      and "(k, v) \<in> set (shape (pathParams parts))"
  shows "getProp (shape sch) k = Some v \<and> k \<in> set (matchAll path)"
proof -
  from extractPathSchema_Inr [OF assms(1)] obtain entries where
    am: "array_map (pathEntry (shape sch)) (matchAll path) = Inr entries" and
    pp: "pathParams parts = ZObject (Object_fromEntries entries)" by auto
  from assms(2) pp set_fromEntries [of entries] have "(k, v) \<in> set entries" by auto
  from array_map_Inr_source [OF am this] obtain x where
    x: "x \<in> set (matchAll path)" "pathEntry (shape sch) x = Inr (k, v)" by auto
  from x(2) have "x = k \<and> getProp (shape sch) k = Some v"
    by (auto simp: pathEntry_def split: if_splits option.splits)
  with x(1) show ?thesis by simp
qed

lemma pathParams_keys:
  assumes "extractPathSchema lib sch path = Inr parts"
  shows "set (Object_keys (shape (pathParams parts))) = set (matchAll path)"
proof -
  from extractPathSchema_Inr [OF assms(1)] obtain entries where
    am: "array_map (pathEntry (shape sch)) (matchAll path) = Inr entries" and
    pp: "pathParams parts = ZObject (Object_fromEntries entries)" by auto
  have "\<And>x y. pathEntry (shape sch) x = Inr y \<Longrightarrow> fst y = x"
    by (auto simp: pathEntry_def split: if_splits option.splits)
  from array_map_Inr_keys [OF am this] have "map fst entries = matchAll path" by simp
  then have "fst ` set entries = set (matchAll path)" by (metis set_map)
  with pp show ?thesis by (simp add: keys_fromEntries)
qed

lemma schemaToPathParameterObjects_total:
  assumes "\<forall>(k, v)\<in>set (shape sch). zodInstanceof (getBaseZodType v) ZodString"
  shows "\<exists>pobjs. schemaToPathParameterObjects lib sch = Inr pobjs"
proof -
  have "\<exists>e. pathParameterEntry lib (shape sch) key = Inr e"
    if "key \<in> set (Object_keys (shape sch))" for key
  proof -
    from that obtain val where v: "map_of (shape sch) key = Some val"
      by (auto simp: Object_keys_def dest: weak_map_of_SomeI)
    then have "(key, val) \<in> set (shape sch)" by (rule map_of_SomeD)
    with assms have "zodInstanceof (getBaseZodType val) ZodString" by auto
    with v show ?thesis by (rule pathParameterEntry_string)
  qed
  from array_map_total [of "Object_keys (shape sch)" "pathParameterEntry lib (shape sch)", OF this]
  obtain entries where
    "array_map (pathParameterEntry lib (shape sch)) (Object_keys (shape sch)) = Inr entries"
    by auto
  then show ?thesis by (simp add: schemaToPathParameterObjects_def)
qed

lemma schemaToPathParameterObjects_strings:
  assumes "schemaToPathParameterObjects lib sch = Inr pobjs"
      and "distinct (map fst (shape sch))"
  shows "\<forall>(k, v)\<in>set (shape sch). zodInstanceof (getBaseZodType v) ZodString"
proof -
  from schemaToPathParameterObjects_Inr [OF assms(1)] obtain entries where
    am: "array_map (pathParameterEntry lib (shape sch)) (Object_keys (shape sch)) = Inr entries"
    by auto
  have "zodInstanceof (getBaseZodType v) ZodString" if kv: "(k, v) \<in> set (shape sch)" for k v
  proof -
    from kv have "k \<in> set (Object_keys (shape sch))" by (force simp: Object_keys_def)
    from array_map_Inr_image [OF am this] obtain e where
      "pathParameterEntry lib (shape sch) k = Inr e" by auto
    from pathParameterEntry_Inr [OF this] obtain val where
      val: "map_of (shape sch) k = Some val" "zodInstanceof (getBaseZodType val) ZodString"
      by auto
    from assms(2) kv have "map_of (shape sch) k = Some v" by simp
    with val show ?thesis by simp
  qed
  then show ?thesis by auto
qed

lemma zodInstanceof_ZodType: "zodInstanceof s k \<Longrightarrow> zodInstanceofZodType s"
  by (simp add: zodInstanceof_def zodInstanceofZodType_def)

lemma map_of_filter_None:
  "\<not> P key \<Longrightarrow> map_of (filter (\<lambda>(k, v). P k) xs) key = None"
  by (induction xs) auto

lemma map_of_filter_Some:
  "map_of (filter (\<lambda>(k, v). P k) xs) key = Some val \<Longrightarrow> map_of xs key = Some val"
proof (induction xs)
  case Nil
  then show ?case by simp
next
  case (Cons x xs)
  obtain k v where x: "x = (k, v)" by (cases x)
  show ?case
  proof (cases "P key")
    case True
    with Cons show ?thesis by (auto simp: x split: if_splits)
  next
    case False
    from map_of_filter_None [of P key "x # xs", OF this] Cons.prems show ?thesis by simp
  qed
qed

lemma getParameterObjects_Inr:
  assumes "getParameterObjects lib sch path = Inr ps"
  shows "\<exists>parts entries pobjs.
           extractPathSchema lib sch path = Inr parts
           \<and> array_map (queryParameterEntry lib (shape (restParams parts)))
                 (Object_keys (shape (restParams parts))) = Inr entries
           \<and> schemaToPathParameterObjects lib (pathParams parts) = Inr pobjs
           \<and> ps = Object_values (spread (Object_fromEntries entries) pobjs)"
proof (cases "extractPathSchema lib sch path")
  case (Inl e)
  with assms show ?thesis by (simp add: getParameterObjects_def split: if_splits)
next
  case parts: (Inr parts)
  show ?thesis
  proof (cases "array_map (queryParameterEntry lib (shape (restParams parts)))
                 (Object_keys (shape (restParams parts)))")
    case (Inl e)
    with assms parts show ?thesis by (simp add: getParameterObjects_def split: if_splits)
  next
    case entries: (Inr entries)
    show ?thesis
    proof (cases "schemaToPathParameterObjects lib (pathParams parts)")
      case (Inl e)
      with assms parts entries show ?thesis
        by (simp add: getParameterObjects_def split: if_splits)
    next
      case (Inr pobjs)
      with assms parts entries show ?thesis
        by (simp add: getParameterObjects_def split: if_splits)
    qed
  qed
qed

lemma query_entry_field:
  assumes "extractPathSchema lib sch path = Inr parts"
      and "array_map (queryParameterEntry lib (shape (restParams parts)))
             (Object_keys (shape (restParams parts))) = Inr entries"
      and "(k, p) \<in> set entries"
  shows "param_name p = k \<and> param_in p = InQuery
         \<and> (\<exists>val. map_of (shape sch) k = Some val
               \<and> zodInstanceof (getBaseZodType val) ZodString
               \<and> param_required p = (\<not> isOptional lib val)
               \<and> param_schema p = zodToJsonSchema lib val)"
proof -
  from array_map_Inr_source [OF assms(2,3)] obtain x where
    "queryParameterEntry lib (shape (restParams parts)) x = Inr (k, p)" by auto
  from queryParameterEntry_Inr [OF this] obtain val where
    val: "map_of (shape (restParams parts)) x = Some val"
         "zodInstanceof (getBaseZodType val) ZodString"
         "k = x"
         "p = \<lparr>param_name = x, param_in = InQuery, param_required = (\<not> isOptional lib val),
               param_schema = zodToJsonSchema lib val,
               param_style = ''form'', param_explode = True\<rparr>"
    by auto
  from val(1) have "map_of (filter (\<lambda>(k, v). k \<notin> set (instanceKeys lib)) (shape sch)) x = Some val"
    by (simp only: restParams_shape [OF assms(1)])
  then have "map_of (shape sch) x = Some val"
    by (rule map_of_filter_Some)
  with val show ?thesis by simp
qed

lemma path_object_field:
  assumes "extractPathSchema lib sch path = Inr parts"
      and "schemaToPathParameterObjects lib (pathParams parts) = Inr pobjs"
      and "(k, p) \<in> set pobjs"
  shows "param_name p = k \<and> param_in p = InPath
         \<and> (\<exists>val. map_of (shape sch) k = Some val
               \<and> zodInstanceof (getBaseZodType val) ZodString
               \<and> param_required p = (\<not> isOptional lib val)
               \<and> param_schema p = zodToJsonSchema lib val)"
proof -
  from schemaToPathParameterObjects_Inr [OF assms(2)] obtain entries where
    am: "array_map (pathParameterEntry lib (shape (pathParams parts)))
           (Object_keys (shape (pathParams parts))) = Inr entries" and
    po: "pobjs = Object_fromEntries entries" by auto
  from assms(3) po set_fromEntries [of entries] have "(k, p) \<in> set entries" by auto
  from array_map_Inr_source [OF am this] obtain x where
    "pathParameterEntry lib (shape (pathParams parts)) x = Inr (k, p)" by auto
  from pathParameterEntry_Inr [OF this] obtain val where
    val: "map_of (shape (pathParams parts)) x = Some val"
         "zodInstanceof (getBaseZodType val) ZodString"
         "k = x"
         "p = \<lparr>param_name = x, param_in = InPath, param_required = (\<not> isOptional lib val),
               param_schema = zodToJsonSchema lib val,
               param_style = ''simple'', param_explode = True\<rparr>"
    by auto
  from val(1) have "(x, val) \<in> set (shape (pathParams parts))" by (rule map_of_SomeD)
  from pathParams_entry [OF assms(1) this] have "getProp (shape sch) x = Some val" by simp
  from getProp_own [OF this val(2)] val show ?thesis by simp
qed

text \<open>
  A field that \<open>extractPathSchema\<close> leaves in the remainder and whose base kind is not
  \<open>ZodString\<close> makes \<open>getParameterObjects\<close> fail with \<open>StringFieldRequired\<close>, while
  \<open>getMutationInputObjects\<close> succeeds exactly when the fields of the path subset are
  strings, whatever the remainder holds, and renders the whole remainder as the body
  schema.
\<close>

lemma rest_field_not_string:
  assumes "extractPathSchema lib sch path = Inr parts"
      and "map_of (shape (restParams parts)) key = Some val"
      and "\<not> zodInstanceof (getBaseZodType val) ZodString"
  shows "getParameterObjects lib sch path = Inl StringFieldRequired
         \<and> ((\<exists>r. getMutationInputObjects lib sch path = Inr r)
              \<longleftrightarrow> (\<forall>(k, v)\<in>set (shape (pathParams parts)).
                      zodInstanceof (getBaseZodType v) ZodString))
         \<and> (\<forall>r. getMutationInputObjects lib sch path = Inr r
              \<longrightarrow> body_content (requestBody r)
                    = [(''application/json'', zodToJsonSchema lib (restParams parts))])"
proof -
  from extractPathSchema_Inr [OF assms(1)] have obj: "zodInstanceof sch ZodObject" by simp
  then have zt: "zodInstanceofZodType sch" by (rule zodInstanceof_ZodType)
  let ?shp = "shape (restParams parts)"
  from assms(2) have "(key, val) \<in> set ?shp" by (rule map_of_SomeD)
  then have key: "key \<in> set (Object_keys ?shp)" by (force simp: Object_keys_def)
  from queryParameterEntry_not_string [OF assms(2,3)]
  have "queryParameterEntry lib ?shp key = Inl StringFieldRequired" .
  with key have "\<exists>x\<in>set (Object_keys ?shp). queryParameterEntry lib ?shp x = Inl StringFieldRequired"
    by auto
  then have "array_map (queryParameterEntry lib ?shp) (Object_keys ?shp) = Inl StringFieldRequired"
  proof (rule array_map_first_error [rotated])
    fix x
    show "queryParameterEntry lib ?shp x = Inl StringFieldRequired
          \<or> (\<exists>y. queryParameterEntry lib ?shp x = Inr y)"
      by (rule queryParameterEntry_cases)
  qed
  with obj zt assms(1) have query: "getParameterObjects lib sch path = Inl StringFieldRequired"
    by (simp add: getParameterObjects_def)
  have body: "body_content (requestBody r)
                = [(''application/json'', zodToJsonSchema lib (restParams parts))]"
    if "getMutationInputObjects lib sch path = Inr r" for r
    using getMutationInputObjects_Inr [OF that] assms(1) by auto
  have "\<forall>(k, v)\<in>set (shape (pathParams parts)). zodInstanceof (getBaseZodType v) ZodString"
    if "\<exists>r. getMutationInputObjects lib sch path = Inr r"
  proof -
    from that obtain r where "getMutationInputObjects lib sch path = Inr r" ..
    from getMutationInputObjects_Inr [OF this] assms(1) obtain pobjs where
      "schemaToPathParameterObjects lib (pathParams parts) = Inr pobjs" by auto
    from schemaToPathParameterObjects_strings [OF this pathParams_distinct [OF assms(1)]]
    show ?thesis .
  qed
  moreover have "\<exists>r. getMutationInputObjects lib sch path = Inr r"
    if "\<forall>(k, v)\<in>set (shape (pathParams parts)). zodInstanceof (getBaseZodType v) ZodString"
  proof -
    from schemaToPathParameterObjects_total [OF that] obtain pobjs where
      "schemaToPathParameterObjects lib (pathParams parts) = Inr pobjs" by auto
    with zt assms(1) show ?thesis by (simp add: getMutationInputObjects_def)
  qed
  ultimately have "(\<exists>r. getMutationInputObjects lib sch path = Inr r)
              \<longleftrightarrow> (\<forall>(k, v)\<in>set (shape (pathParams parts)).
                      zodInstanceof (getBaseZodType v) ZodString)" by (rule iffI)
  with query body show ?thesis by simp
qed

text \<open>
  C3. A field whose base kind is not \<open>ZodString\<close> and that the template does not name
  should land in the query subset and make \<open>getParameterObjects\<close> fail with
  \<open>StringFieldRequired\<close>. The mask given to \<open>omit\<close> holds the keys of the
  \<open>pathParams\<close> instance, so a field named like one of them (\<open>parse\<close>, \<open>_def\<close>,
  \<open>default\<close>, ...) is dropped from the remainder and never checked: for the schema
  \<open>{parse: number}\<close> and the template \<open>/p\<close> the result is the empty parameter list.
  \<open>getMutationInputObjects\<close> succeeds on the same input, with the field missing from the
  body schema as well.
\<close>

theorem instance_key_field_unchecked:
  assumes "''parse'' \<in> set (instanceKeys lib)"
  shows "\<not> zodInstanceof (getBaseZodType (ZOther ''ZodNumber'')) ZodString
         \<and> ''parse'' \<notin> set (matchAll ''/p'')
         \<and> getParameterObjects lib (ZObject [(''parse'', ZOther ''ZodNumber'')]) ''/p'' = Inr []
         \<and> getMutationInputObjects lib (ZObject [(''parse'', ZOther ''ZodNumber'')]) ''/p''
             = Inr \<lparr>requestBody =
                      \<lparr>body_required = (\<not> isOptional lib (ZObject [])),
                       body_content = [(''application/json'', zodToJsonSchema lib (ZObject []))]\<rparr>,
                    parameters = []\<rparr>"
proof -
  let ?sch = "ZObject [(''parse'', ZOther ''ZodNumber'')]"
  have kind: "\<not> zodInstanceof (getBaseZodType (ZOther ''ZodNumber'')) ZodString"
    by (simp add: zodInstanceof_def)
  have names: "matchAll ''/p'' = []" by code_simp
  have empty: "Object_fromEntries ([] :: (string \<times> zod) list) = []"
    by (simp add: Object_fromEntries_def)
  have emptyp: "Object_fromEntries ([] :: (string \<times> 'a ParameterObject) list) = []"
    by (simp add: Object_fromEntries_def)
  from assms
  have rest: "omit ?sch (Object_fromEntries (map (\<lambda>k. (k, True)) (instanceKeys lib))) = ZObject []"
    by (simp add: mask_keys)
  have parts: "extractPathSchema lib ?sch ''/p'' = Inr \<lparr>pathParams = ZObject [], restParams = ZObject []\<rparr>"
    unfolding extractPathSchema_def names rest
    by (simp add: empty zodInstanceofZodType_def zodInstanceof_def)
  have pobjs: "schemaToPathParameterObjects lib (ZObject []) = Inr []"
    by (simp add: schemaToPathParameterObjects_def Object_keys_def emptyp)
  have query: "getParameterObjects lib ?sch ''/p'' = Inr []"
    unfolding getParameterObjects_def parts
    by (simp add: pobjs zodInstanceofZodType_def zodInstanceof_def Object_keys_def emptyp
        spread_def Object_values_def)
  have body: "getMutationInputObjects lib ?sch ''/p''
             = Inr \<lparr>requestBody =
                      \<lparr>body_required = (\<not> isOptional lib (ZObject [])),
                       body_content = [(''application/json'', zodToJsonSchema lib (ZObject []))]\<rparr>,
                    parameters = []\<rparr>"
    unfolding getMutationInputObjects_def parts
    by (simp add: pobjs zodInstanceofZodType_def zodSchemaToOpenApiSchemaObject_def
        Object_values_def)
  from kind names query body show ?thesis by simp
qed

theorem instance_key_field_unchecked_witness:
  "''parse'' \<in> set (instanceKeys zod3)
   \<and> getParameterObjects zod3 (ZObject [(''parse'', ZOther ''ZodNumber'')]) ''/p'' = Inr []
   \<and> getMutationInputObjects zod3 (ZObject [(''parse'', ZOther ''ZodNumber'')]) ''/p''
       = Inr \<lparr>requestBody =
                \<lparr>body_required = True,
                 body_content = [(''application/json'', ZObject [])]\<rparr>,
              parameters = []\<rparr>"
proof -
  have k: "''parse'' \<in> set (instanceKeys zod3)" by code_simp
  have body: "getMutationInputObjects zod3 (ZObject [(''parse'', ZOther ''ZodNumber'')]) ''/p''
       = Inr \<lparr>requestBody =
                \<lparr>body_required = True,
                 body_content = [(''application/json'', ZObject [])]\<rparr>,
              parameters = []\<rparr>"
    by code_simp
  from instance_key_field_unchecked [OF k]
  have "getParameterObjects zod3 (ZObject [(''parse'', ZOther ''ZodNumber'')]) ''/p'' = Inr []"
    by (elim conjE)
  with k body show ?thesis by (intro conjI)
qed

text \<open>
  C4. Every parameter object that is emitted, path or query, belongs to a field of the
  schema whose base kind is \<open>ZodString\<close>, and its \<open>required\<close> flag is the negation of
  \<open>isOptional()\<close> asked of that field as it stands in the schema, wrappers included,
  not of its unwrapped base. With zod's answers for the two wrappers (the last two
  premises), an optional string and a default around an optional string both give
  \<open>required: false\<close>.
\<close>

theorem required_of_wrapped_field:
  assumes "getParameterObjects lib sch path = Inr ps
           \<or> (\<exists>r. getMutationInputObjects lib sch path = Inr r \<and> ps = parameters r)"
      and "p \<in> set ps"
      and "isOptional lib (ZOptional ZString)"
      and "isOptional lib (ZDefault (ZOptional ZString))"
  shows "\<exists>val. map_of (shape sch) (param_name p) = Some val
           \<and> zodInstanceof (getBaseZodType val) ZodString
           \<and> param_required p = (\<not> isOptional lib val)
           \<and> (val = ZOptional ZString \<longrightarrow> param_required p = False)
           \<and> (val = ZDefault (ZOptional ZString) \<longrightarrow> param_required p = False)"
proof -
  have field: "\<exists>val. map_of (shape sch) (param_name p) = Some val
           \<and> zodInstanceof (getBaseZodType val) ZodString
           \<and> param_required p = (\<not> isOptional lib val)"
    using assms(1)
  proof
    assume "getParameterObjects lib sch path = Inr ps"
    from getParameterObjects_Inr [OF this] obtain parts entries pobjs where
      parts: "extractPathSchema lib sch path = Inr parts" and
      entries: "array_map (queryParameterEntry lib (shape (restParams parts)))
                 (Object_keys (shape (restParams parts))) = Inr entries" and
      pobjs: "schemaToPathParameterObjects lib (pathParams parts) = Inr pobjs" and
      ps: "ps = Object_values (spread (Object_fromEntries entries) pobjs)" by auto
    from assms(2) ps obtain k where
      "(k, p) \<in> set (Object_fromEntries (Object_fromEntries entries @ pobjs))"
      by (auto simp: Object_values_def spread_def)
    with set_fromEntries [of "Object_fromEntries entries @ pobjs"] set_fromEntries [of entries]
    have "(k, p) \<in> set entries \<or> (k, p) \<in> set pobjs" by auto
    then show ?thesis
    proof
      assume "(k, p) \<in> set entries"
      from query_entry_field [OF parts entries this] show ?thesis by auto
    next
      assume "(k, p) \<in> set pobjs"
      from path_object_field [OF parts pobjs this] show ?thesis by auto
    qed
  next
    assume "\<exists>r. getMutationInputObjects lib sch path = Inr r \<and> ps = parameters r"
    then obtain r where r: "getMutationInputObjects lib sch path = Inr r" "ps = parameters r"
      by auto
    from getMutationInputObjects_Inr [OF r(1)] r(2) obtain parts pobjs where
      parts: "extractPathSchema lib sch path = Inr parts" and
      pobjs: "schemaToPathParameterObjects lib (pathParams parts) = Inr pobjs" and
      ps: "ps = Object_values pobjs" by auto
    from assms(2) ps obtain k where "(k, p) \<in> set pobjs"
      by (auto simp: Object_values_def)
    from path_object_field [OF parts pobjs this] show ?thesis by auto
  qed
  then obtain val where
    val: "map_of (shape sch) (param_name p) = Some val"
         "zodInstanceof (getBaseZodType val) ZodString"
         "param_required p = (\<not> isOptional lib val)" by auto
  from val(3) assms(3) have "val = ZOptional ZString \<longrightarrow> param_required p = False" by auto
  moreover from val(3) assms(4)
  have "val = ZDefault (ZOptional ZString) \<longrightarrow> param_required p = False" by auto
  ultimately show ?thesis using val by auto
qed

theorem required_of_wrapped_field_witness:
  "getParameterObjects zod3
     (ZObject [(''id'', ZString), (''q'', ZOptional ZString), (''d'', ZDefault (ZOptional ZString))])
     ''/posts/{id}''
     = Inr [\<lparr>param_name = ''id'', param_in = InPath, param_required = True,
              param_schema = ZString, param_style = ''simple'', param_explode = True\<rparr>,
            \<lparr>param_name = ''q'', param_in = InQuery, param_required = False,
              param_schema = ZOptional ZString, param_style = ''form'', param_explode = True\<rparr>,
            \<lparr>param_name = ''d'', param_in = InQuery, param_required = False,
              param_schema = ZDefault (ZOptional ZString), param_style = ''form'',
              param_explode = True\<rparr>]
   \<and> isOptional zod3 (ZOptional ZString)
   \<and> isOptional zod3 (ZDefault (ZOptional ZString))
   \<and> (\<exists>val. map_of [(''id'', ZString), (''q'', ZOptional ZString),
                     (''d'', ZDefault (ZOptional ZString))] ''q'' = Some val
          \<and> zodInstanceof (getBaseZodType val) ZodString
          \<and> \<not> isOptional zod3 (getBaseZodType val)
          \<and> isOptional zod3 val)"
proof -
  let ?sch = "ZObject [(''id'', ZString), (''q'', ZOptional ZString),
                       (''d'', ZDefault (ZOptional ZString))]"
  let ?q = "\<lparr>param_name = ''q'', param_in = InQuery, param_required = False,
              param_schema = ZOptional ZString, param_style = ''form'', param_explode = True\<rparr>"
  let ?ps = "[\<lparr>param_name = ''id'', param_in = InPath, param_required = True,
              param_schema = ZString, param_style = ''simple'', param_explode = True\<rparr>,
            ?q,
            \<lparr>param_name = ''d'', param_in = InQuery, param_required = False,
              param_schema = ZDefault (ZOptional ZString), param_style = ''form'',
              param_explode = True\<rparr>]"
  have run: "getParameterObjects zod3 ?sch ''/posts/{id}'' = Inr ?ps" by code_simp
  have o1: "isOptional zod3 (ZOptional ZString)" by (simp add: zod3_def)
  have o2: "isOptional zod3 (ZDefault (ZOptional ZString))" by (simp add: zod3_def)
  have mem: "?q \<in> set ?ps" by simp
  from required_of_wrapped_field [OF disjI1 [OF run] mem o1 o2]
  have "\<exists>val. map_of (shape ?sch) ''q'' = Some val
          \<and> zodInstanceof (getBaseZodType val) ZodString
          \<and> False = (\<not> isOptional zod3 val)"
    by simp
  then have "\<exists>val. map_of [(''id'', ZString), (''q'', ZOptional ZString),
                     (''d'', ZDefault (ZOptional ZString))] ''q'' = Some val
          \<and> zodInstanceof (getBaseZodType val) ZodString
          \<and> \<not> isOptional zod3 (getBaseZodType val)
          \<and> isOptional zod3 val"
    by (simp add: zod3_def)
  with run o1 o2 show ?thesis by (intro conjI)
qed

lemma keys_insertIndex_cong:
  "map fst ps = map fst qs \<Longrightarrow> map fst (insertIndex k v ps) = map fst (insertIndex k w qs)"
proof (induction ps arbitrary: qs)
  case Nil
  then show ?case by simp
next
  case (Cons p ps)
  from Cons.prems obtain q qs' where qs: "qs = q # qs'" by (cases qs) auto
  obtain a b where p: "p = (a, b)" by (cases p)
  obtain c d where q: "q = (c, d)" by (cases q)
  from Cons.prems have "a = c" "map fst ps = map fst qs'" by (simp_all add: qs p q)
  with Cons.IH [of qs'] show ?case by (simp add: qs p q)
qed

lemma keys_setProp_cong:
  assumes "map fst ps = map fst qs"
  shows "map fst (setProp k v ps) = map fst (setProp k w qs)"
proof -
  from assms have "set (map fst ps) = set (map fst qs)" by simp
  then have mem: "k \<in> fst ` set ps \<longleftrightarrow> k \<in> fst ` set qs" by simp
  show ?thesis
  proof (cases "k \<in> fst ` set ps")
    case True
    with mem have "k \<in> fst ` set qs" by simp
    with True assms show ?thesis by (simp only: setProp_def if_True keys_update_in_place)
  next
    case False
    with mem have "k \<notin> fst ` set qs" by simp
    with False assms keys_insertIndex_cong [OF assms, of k v w] show ?thesis
      by (simp add: setProp_def)
  qed
qed

lemma keys_foldl_setProp_cong:
  "map fst acc = map fst acc' \<Longrightarrow> map fst es = map fst es' \<Longrightarrow>
   map fst (foldl (\<lambda>obj (k, v). setProp k v obj) acc es)
     = map fst (foldl (\<lambda>obj (k, v). setProp k v obj) acc' es')"
proof (induction es arbitrary: es' acc acc')
  case Nil
  then show ?case by simp
next
  case (Cons e es)
  from Cons.prems(2) obtain e' es'' where es': "es' = e' # es''" by (cases es') auto
  obtain k v where e: "e = (k, v)" by (cases e)
  obtain k' w where e': "e' = (k', w)" by (cases e')
  from Cons.prems(2) have same: "k' = k" "map fst es = map fst es''" by (simp_all add: es' e e')
  from keys_setProp_cong [OF Cons.prems(1), of k v w]
  have "map fst (setProp k v acc) = map fst (setProp k w acc')" .
  from Cons.IH [OF this same(2)] show ?case by (simp add: es' e e' same(1))
qed

lemma keys_fromEntries_cong:
  "map fst es = map fst es' \<Longrightarrow>
   Object_keys (Object_fromEntries es) = Object_keys (Object_fromEntries es')"
  using keys_foldl_setProp_cong [of "[]" "[]" es es']
  by (simp add: Object_keys_def Object_fromEntries_def)

lemma ordered_insertIndex:
  assumes "sorted_wrt precedes (map fst ps)" and "k \<notin> fst ` set ps" and "isArrayIndex k"
  shows "sorted_wrt precedes (map fst (insertIndex k v ps))"
  using assms
proof (induction ps)
  case Nil
  then show ?case by simp
next
  case (Cons p ps)
  obtain a b where p: "p = (a, b)" by (cases p)
  from Cons.prems have tail: "sorted_wrt precedes (map fst ps)" and
    head: "\<forall>y\<in>fst ` set ps. precedes a y" and
    new: "k \<notin> fst ` set ps" "k \<noteq> a"
    by (auto simp: p)
  show ?case
  proof (cases "isArrayIndex a \<and> strToInt a \<le> strToInt k")
    case True
    with new(2) have "precedes a k" by (simp add: precedes_def)
    moreover have "fst ` set (insertIndex k v ps) = insert k (fst ` set ps)"
      by (simp add: set_insertIndex)
    ultimately have "\<forall>y\<in>fst ` set (insertIndex k v ps). precedes a y" using head by simp
    with Cons.IH [OF tail new(1) Cons.prems(3)] True show ?thesis by (simp add: p)
  next
    case False
    have "precedes k y" if y: "y = a \<or> y \<in> fst ` set ps" for y
    proof -
      from y new have ne: "k \<noteq> y" by auto
      have "isArrayIndex k \<and> strToInt k \<le> strToInt y" if iy: "isArrayIndex y"
      proof (cases "y = a")
        case True
        with False iy Cons.prems(3) show ?thesis by auto
      next
        case False': False
        with y have "y \<in> fst ` set ps" by simp
        with head have "precedes a y" by auto
        with iy have "isArrayIndex a \<and> strToInt a \<le> strToInt y" by (simp add: precedes_def)
        with False Cons.prems(3) show ?thesis by auto
      qed
      with ne show ?thesis by (simp add: precedes_def)
    qed
    with Cons.prems(1) False show ?thesis by (auto simp: p)
  qed
qed

lemma ordered_setProp:
  assumes "sorted_wrt precedes (map fst ps)"
  shows "sorted_wrt precedes (map fst (setProp k v ps))"
proof (cases "k \<in> fst ` set ps")
  case True
  with assms show ?thesis by (simp only: setProp_def if_True keys_update_in_place)
next
  case False
  show ?thesis
  proof (cases "isArrayIndex k")
    case True
    with False ordered_insertIndex [OF assms False True] show ?thesis by (simp add: setProp_def)
  next
    case nonindex: False
    from False have "\<forall>a\<in>fst ` set ps. precedes a k"
      using nonindex by (auto simp: precedes_def)
    with assms False nonindex show ?thesis
      by (simp add: setProp_def sorted_wrt_append)
  qed
qed

lemma ordered_foldl_setProp:
  "sorted_wrt precedes (map fst acc) \<Longrightarrow>
   sorted_wrt precedes (map fst (foldl (\<lambda>obj (k, v). setProp k v obj) acc es))"
proof (induction es arbitrary: acc)
  case Nil
  then show ?case by simp
next
  case (Cons e es)
  obtain k v where e: "e = (k, v)" by (cases e)
  from Cons.IH [OF ordered_setProp [OF Cons.prems, of k v]] show ?case by (simp add: e)
qed

lemma propertyOrder_fromEntries: "propertyOrder (Object_keys (Object_fromEntries es))"
  using ordered_foldl_setProp [of "[]" es]
  by (simp add: propertyOrder_def Object_keys_def Object_fromEntries_def)

lemma insertIndex_last:
  "\<forall>a\<in>fst ` set ps. isArrayIndex a \<and> strToInt a \<le> strToInt k \<Longrightarrow>
   insertIndex k v ps = ps @ [(k, v)]"
  by (induction ps) auto

lemma setProp_last:
  assumes "\<forall>a\<in>fst ` set ps. precedes a k"
  shows "setProp k v ps = ps @ [(k, v)]"
proof -
  from assms have new: "k \<notin> fst ` set ps" by (auto simp: precedes_def)
  show ?thesis
  proof (cases "isArrayIndex k")
    case True
    with assms have "\<forall>a\<in>fst ` set ps. isArrayIndex a \<and> strToInt a \<le> strToInt k"
      by (simp add: precedes_def)
    from insertIndex_last [OF this] new True show ?thesis by (simp add: setProp_def)
  next
    case False
    with new show ?thesis by (simp add: setProp_def)
  qed
qed

lemma foldl_setProp_ordered:
  "sorted_wrt precedes (map fst (acc @ es)) \<Longrightarrow>
   foldl (\<lambda>obj (k, v). setProp k v obj) acc es = acc @ es"
proof (induction es arbitrary: acc)
  case Nil
  then show ?case by simp
next
  case (Cons e es)
  obtain k v where e: "e = (k, v)" by (cases e)
  from Cons.prems have "\<forall>a\<in>fst ` set acc. precedes a k"
    by (auto simp: e sorted_wrt_append)
  from setProp_last [OF this] have step: "setProp k v acc = acc @ [(k, v)]" .
  from Cons.prems have "sorted_wrt precedes (map fst ((acc @ [(k, v)]) @ es))" by (simp add: e)
  from Cons.IH [OF this] step show ?case by (simp add: e)
qed

lemma fromEntries_of_object:
  "propertyOrder (Object_keys obj) \<Longrightarrow> Object_fromEntries obj = obj"
  using foldl_setProp_ordered [of "[]" obj]
  by (simp add: propertyOrder_def Object_keys_def Object_fromEntries_def)

lemma fromEntries_idem: "Object_fromEntries (Object_fromEntries es) = Object_fromEntries es"
  by (rule fromEntries_of_object) (rule propertyOrder_fromEntries)

lemma spread_of_object:
  "spread (Object_fromEntries a) b
     = foldl (\<lambda>obj (k, v). setProp k v obj) (Object_fromEntries a) b"
proof -
  have "spread (Object_fromEntries a) b
          = foldl (\<lambda>obj (k, v). setProp k v obj)
              (Object_fromEntries (Object_fromEntries a)) b"
    by (simp add: spread_def Object_fromEntries_def)
  then show ?thesis by (simp only: fromEntries_idem)
qed

lemma spread_keys:
  "Object_keys (spread a b)
     = map fst (foldl (\<lambda>obj (k, v). setProp k v obj) (Object_fromEntries a) b)"
  by (simp add: spread_def Object_fromEntries_def Object_keys_def)

lemma queryParameterEntry_key: "queryParameterEntry lib shp x = Inr y \<Longrightarrow> fst y = x"
  using queryParameterEntry_Inr [of lib shp x y] by auto

lemma pathParameterEntry_key: "pathParameterEntry lib shp x = Inr y \<Longrightarrow> fst y = x"
  using pathParameterEntry_Inr [of lib shp x y] by auto

lemma pathParams_ordered:
  assumes "extractPathSchema lib sch path = Inr parts"
  shows "propertyOrder (Object_keys (shape (pathParams parts)))"
proof -
  from extractPathSchema_Inr [OF assms] obtain entries where
    "pathParams parts = ZObject (Object_fromEntries entries)" by auto
  with propertyOrder_fromEntries [of entries] show ?thesis by simp
qed

lemma keys_foldl_setProp_plain:
  "distinct (map fst es) \<Longrightarrow> \<forall>k\<in>fst ` set es. \<not> isArrayIndex k \<Longrightarrow>
   map fst (foldl (\<lambda>obj (k, v). setProp k v obj) acc es)
     = map fst acc @ filter (\<lambda>k. k \<notin> fst ` set acc) (map fst es)"
proof (induction es arbitrary: acc)
  case Nil
  then show ?case by simp
next
  case (Cons e es)
  obtain k v where e: "e = (k, v)" by (cases e)
  from Cons.prems have d: "distinct (map fst es)" and new: "k \<notin> fst ` set es" and
    plain: "\<forall>k\<in>fst ` set es. \<not> isArrayIndex k" and kplain: "\<not> isArrayIndex k"
    by (auto simp: e)
  note IH = Cons.IH [OF d plain, of "setProp k v acc"]
  show ?case
  proof (cases "k \<in> fst ` set acc")
    case True
    then have "map fst (setProp k v acc) = map fst acc"
      by (simp only: setProp_def if_True keys_update_in_place)
    moreover from this have "fst ` set (setProp k v acc) = fst ` set acc"
      by (metis set_map)
    ultimately show ?thesis using IH True by (simp add: e)
  next
    case False
    with kplain have step: "setProp k v acc = acc @ [(k, v)]" by (simp add: setProp_def)
    from new have "filter (\<lambda>x. x \<notin> fst ` set (acc @ [(k, v)])) (map fst es)
                     = filter (\<lambda>x. x \<notin> fst ` set acc) (map fst es)"
      by (intro filter_cong) auto
    with IH step False show ?thesis by (simp add: e)
  qed
qed

lemma fromEntries_plain:
  "distinct (map fst es) \<Longrightarrow> \<forall>k\<in>fst ` set es. \<not> isArrayIndex k \<Longrightarrow>
   Object_keys (Object_fromEntries es) = map fst es"
  using keys_foldl_setProp_plain [of es "[]"]
  by (simp add: Object_keys_def Object_fromEntries_def)

lemma spread_keys_plain:
  assumes "distinct (map fst a)" and "\<forall>k\<in>fst ` set a. \<not> isArrayIndex k"
      and "distinct (map fst b)" and "\<forall>k\<in>fst ` set b. \<not> isArrayIndex k"
  shows "Object_keys (spread a b)
           = Object_keys a @ filter (\<lambda>k. k \<notin> set (Object_keys a)) (Object_keys b)"
proof -
  from fromEntries_plain [OF assms(1,2)]
  have a: "map fst (Object_fromEntries a) = map fst a" by (simp add: Object_keys_def)
  then have "fst ` set (Object_fromEntries a) = fst ` set a" by (metis set_map)
  with keys_foldl_setProp_plain [OF assms(3,4), of "Object_fromEntries a"] a
  have "map fst (foldl (\<lambda>obj (k, v). setProp k v obj) (Object_fromEntries a) b)
          = map fst a @ filter (\<lambda>k. k \<notin> fst ` set a) (map fst b)"
    by simp
  then show ?thesis unfolding spread_keys by (simp add: Object_keys_def)
qed

lemma restParams_keys_subset:
  assumes "extractPathSchema lib sch path = Inr parts"
  shows "fst ` set (shape (restParams parts)) \<subseteq> fst ` set (shape sch)
         \<and> (distinct (map fst (shape sch)) \<longrightarrow> distinct (map fst (shape (restParams parts))))"
  by (auto simp: restParams_shape [OF assms] distinct_map_filter)

text \<open>
  C2. The specification has the path parameters before the query parameters. The list is
  \<open>Object.values({...restParamObjects, ...pathParamObjects})\<close>, so it follows the
  property order of the remainder merged with the path subset: the names of
  \<open>restParams\<close> come first and a name of \<open>pathParams\<close> that is not among them comes
  after (array-index names before all others; the last conjunct spells the order out
  for a schema without such names). What holds is that order, and that the object at a
  name is the path-location one exactly when the template has the name as a dynamic
  segment.
\<close>

theorem parameter_order:
  assumes "getParameterObjects lib sch path = Inr ps"
  shows "\<exists>parts. extractPathSchema lib sch path = Inr parts
           \<and> map param_name ps
               = Object_keys (spread (shape (restParams parts)) (shape (pathParams parts)))
           \<and> (\<forall>p\<in>set ps. param_in p
                 = (if param_name p \<in> set (matchAll path) then InPath else InQuery))
           \<and> (distinct (map fst (shape sch)) \<and> (\<forall>k\<in>fst ` set (shape sch). \<not> isArrayIndex k)
                \<longrightarrow> map param_name ps
                      = Object_keys (shape (restParams parts))
                        @ filter (\<lambda>k. k \<notin> set (Object_keys (shape (restParams parts))))
                            (Object_keys (shape (pathParams parts))))"
proof -
  from getParameterObjects_Inr [OF assms] obtain parts qes pobjs where
    parts: "extractPathSchema lib sch path = Inr parts" and
    qes: "array_map (queryParameterEntry lib (shape (restParams parts)))
            (Object_keys (shape (restParams parts))) = Inr qes" and
    pobjs: "schemaToPathParameterObjects lib (pathParams parts) = Inr pobjs" and
    ps: "ps = Object_values (spread (Object_fromEntries qes) pobjs)" by auto
  let ?rest = "shape (restParams parts)" and ?path = "shape (pathParams parts)"
  let ?put = "\<lambda>obj (k, v). setProp k v obj"
  from schemaToPathParameterObjects_Inr [OF pobjs] obtain pes where
    pes: "array_map (pathParameterEntry lib ?path) (Object_keys ?path) = Inr pes" and
    po: "pobjs = Object_fromEntries pes" by auto
  from array_map_Inr_keys [OF qes queryParameterEntry_key]
  have qkeys: "map fst qes = map fst ?rest" by (simp add: Object_keys_def)
  from array_map_Inr_keys [OF pes pathParameterEntry_key]
  have pkeys: "map fst pes = map fst ?path" by (simp add: Object_keys_def)
  from pathParams_ordered [OF parts] pkeys have "propertyOrder (Object_keys pes)"
    by (simp add: Object_keys_def)
  from fromEntries_of_object [OF this] po have pobjs_eq: "pobjs = pes" by simp
  let ?M = "spread (Object_fromEntries qes) pobjs"
  have M: "?M = foldl ?put (Object_fromEntries qes) pes"
    by (simp only: spread_of_object pobjs_eq)
  have "map fst (Object_fromEntries qes) = map fst (Object_fromEntries ?rest)"
    using keys_fromEntries_cong [OF qkeys] by (simp add: Object_keys_def)
  from keys_foldl_setProp_cong [OF this pkeys]
  have keysM: "map fst ?M = Object_keys (spread ?rest ?path)"
    by (simp only: M spread_keys)
  have sub: "set ?M \<subseteq> set qes \<union> set pes"
  proof -
    have "set ?M \<subseteq> set (Object_fromEntries qes) \<union> set pes"
      unfolding M by (rule foldl_setProp_subset)
    with set_fromEntries [of qes] show ?thesis by auto
  qed
  have q_entry: "param_name p = k \<and> param_in p = InQuery" if "(k, p) \<in> set qes" for k p
    using query_entry_field [OF parts qes that] by simp
  have p_entry: "param_name p = k \<and> param_in p = InPath" if "(k, p) \<in> set pes" for k p
    using path_object_field [OF parts pobjs] that pobjs_eq by simp
  have name: "param_name p = k" if "(k, p) \<in> set ?M" for k p
    using that sub q_entry p_entry by blast
  then have "map (\<lambda>e. param_name (snd e)) ?M = map fst ?M"
    by (intro map_cong) auto
  with keysM ps have order: "map param_name ps = Object_keys (spread ?rest ?path)"
    by (simp add: Object_values_def comp_def)
  have dist: "distinct (map fst ?M)"
    using distinct_fromEntries [of "Object_fromEntries qes @ pobjs"]
    by (simp add: spread_def Object_keys_def)
  have lookup: "map_of ?M = map_of (rev (Object_fromEntries qes)) ++ map_of (rev pes)"
    by (simp add: spread_def map_of_fromEntries pobjs_eq)
  have loc0: "param_in p = (if param_name p \<in> set (Object_keys ?path) then InPath else InQuery)"
    if "p \<in> set ps" for p
  proof -
    from that ps obtain k where kp: "(k, p) \<in> set ?M" by (auto simp: Object_values_def)
    with dist have mk: "map_of ?M k = Some p" by simp
    from name [OF kp] have nk: "param_name p = k" .
    show ?thesis
    proof (cases "k \<in> set (Object_keys ?path)")
      case True
      with pkeys have "k \<in> fst ` set (rev pes)" by (metis Object_keys_def set_map set_rev)
      then have "map_of (rev pes) k \<noteq> None" by (simp only: map_of_eq_None_iff not_not)
      then obtain p' where p': "map_of (rev pes) k = Some p'" by auto
      then have "(k, p') \<in> set pes" by (auto dest: map_of_SomeD)
      from p_entry [OF this] have "param_in p' = InPath" by simp
      moreover from mk lookup p' have "p = p'" by (simp add: map_add_def)
      ultimately show ?thesis using True nk by simp
    next
      case False
      with pkeys have "k \<notin> fst ` set (rev pes)" by (metis Object_keys_def set_map set_rev)
      then have "map_of (rev pes) k = None" by (simp add: map_of_eq_None_iff)
      with mk lookup have "map_of (rev (Object_fromEntries qes)) k = Some p"
        by (simp add: map_add_def)
      then have "(k, p) \<in> set (Object_fromEntries qes)" by (auto dest: map_of_SomeD)
      with set_fromEntries [of qes] have "(k, p) \<in> set qes" by auto
      from q_entry [OF this] False nk show ?thesis by simp
    qed
  qed
  have loc: "param_in p = (if param_name p \<in> set (matchAll path) then InPath else InQuery)"
    if "p \<in> set ps" for p
    using loc0 [OF that] by (simp only: pathParams_keys [OF parts])
  have plain: "map param_name ps
                 = Object_keys ?rest @ filter (\<lambda>k. k \<notin> set (Object_keys ?rest)) (Object_keys ?path)"
    if d: "distinct (map fst (shape sch))" and ni: "\<forall>k\<in>fst ` set (shape sch). \<not> isArrayIndex k"
  proof -
    from restParams_keys_subset [OF parts] d
    have r1: "distinct (map fst ?rest)" by simp
    from restParams_keys_subset [OF parts] have "fst ` set ?rest \<subseteq> fst ` set (shape sch)"
      by simp
    with ni have r2: "\<forall>k\<in>fst ` set ?rest. \<not> isArrayIndex k" by blast
    note r = r1 r2
    have "k \<in> fst ` set (shape sch)" if kv: "(k, v) \<in> set ?path" for k v
    proof -
      from schemaToPathParameterObjects_strings [OF pobjs pathParams_distinct [OF parts]] kv
      have "zodInstanceof (getBaseZodType v) ZodString" by auto
      moreover from pathParams_entry [OF parts kv] have "getProp (shape sch) k = Some v" by simp
      ultimately have "map_of (shape sch) k = Some v" by (rule getProp_own [rotated])
      then have "(k, v) \<in> set (shape sch)" by (rule map_of_SomeD)
      then show ?thesis by force
    qed
    then have "fst ` set ?path \<subseteq> fst ` set (shape sch)" by auto
    with ni have "\<forall>k\<in>fst ` set ?path. \<not> isArrayIndex k" by blast
    from spread_keys_plain [OF r pathParams_distinct [OF parts] this] order
    show ?thesis by simp
  qed
  from parts order loc plain show ?thesis by blast
qed

theorem parameter_order_counterexample:
  "getParameterObjects zod3 (ZObject [(''q'', ZString), (''id'', ZString)]) ''/posts/{id}''
     = Inr [\<lparr>param_name = ''q'', param_in = InQuery, param_required = True,
              param_schema = ZString, param_style = ''form'', param_explode = True\<rparr>,
            \<lparr>param_name = ''id'', param_in = InPath, param_required = True,
              param_schema = ZString, param_style = ''simple'', param_explode = True\<rparr>]
   \<and> \<not> pathThenQuery
         [\<lparr>param_name = ''q'', param_in = InQuery, param_required = True,
            param_schema = ZString, param_style = ''form'', param_explode = True\<rparr>,
          \<lparr>param_name = ''id'', param_in = InPath, param_required = True,
            param_schema = ZString, param_style = ''simple'', param_explode = True\<rparr>]"
  by code_simp

theorem parameter_order_witness:
  "getParameterObjects zod3 (ZObject [(''q'', ZString), (''id'', ZString)]) ''/posts/{id}''
     = Inr [\<lparr>param_name = ''q'', param_in = InQuery, param_required = True,
              param_schema = ZString, param_style = ''form'', param_explode = True\<rparr>,
            \<lparr>param_name = ''id'', param_in = InPath, param_required = True,
              param_schema = ZString, param_style = ''simple'', param_explode = True\<rparr>]
   \<and> extractPathSchema zod3 (ZObject [(''q'', ZString), (''id'', ZString)]) ''/posts/{id}''
       = Inr \<lparr>pathParams = ZObject [(''id'', ZString)],
              restParams = ZObject [(''q'', ZString), (''id'', ZString)]\<rparr>
   \<and> matchAll ''/posts/{id}'' = [''id'']
   \<and> distinct (map fst (shape (ZObject [(''q'', ZString), (''id'', ZString)])))
   \<and> \<not> isArrayIndex ''q'' \<and> \<not> isArrayIndex ''id''
   \<and> Object_keys (spread [(''q'', ZString), (''id'', ZString)] [(''id'', ZString)])
       = [''q'', ''id'']
   \<and> Object_keys [(''q'', ZString), (''id'', ZString)]
         @ filter (\<lambda>k. k \<notin> set (Object_keys [(''q'', ZString), (''id'', ZString)]))
             (Object_keys [(''id'', ZString)])
       = [''q'', ''id'']"
proof -
  let ?ps = "[\<lparr>param_name = ''q'', param_in = InQuery, param_required = True,
              param_schema = ZString, param_style = ''form'', param_explode = True\<rparr>,
            \<lparr>param_name = ''id'', param_in = InPath, param_required = True,
              param_schema = ZString, param_style = ''simple'', param_explode = True\<rparr>]"
  have run: "getParameterObjects zod3 (ZObject [(''q'', ZString), (''id'', ZString)]) ''/posts/{id}''
     = Inr ?ps"
    by code_simp
  have parts: "extractPathSchema zod3 (ZObject [(''q'', ZString), (''id'', ZString)]) ''/posts/{id}''
       = Inr \<lparr>pathParams = ZObject [(''id'', ZString)],
              restParams = ZObject [(''q'', ZString), (''id'', ZString)]\<rparr>"
    by code_simp
  have names: "matchAll ''/posts/{id}'' = [''id'']" by code_simp
  have keys: "distinct (map fst (shape (ZObject [(''q'', ZString), (''id'', ZString)])))"
    by simp
  have plain: "\<not> isArrayIndex ''q''" "\<not> isArrayIndex ''id''" by code_simp+
  from parameter_order [OF run] parts
  have "map param_name ?ps
          = Object_keys (spread [(''q'', ZString), (''id'', ZString)] [(''id'', ZString)])"
    by simp
  then have merged: "Object_keys (spread [(''q'', ZString), (''id'', ZString)] [(''id'', ZString)])
          = [''q'', ''id'']"
    by simp
  have listed: "Object_keys [(''q'', ZString), (''id'', ZString)]
         @ filter (\<lambda>k. k \<notin> set (Object_keys [(''q'', ZString), (''id'', ZString)]))
             (Object_keys [(''id'', ZString)])
       = [''q'', ''id'']"
    by code_simp
  from run parts names keys plain merged listed show ?thesis by (intro conjI)
qed

end
